theory Spec2Isabelle
  imports Main "HOL-Library.Sublist" "HOL-Library.Char_ord" "HOL-Library.List_Lexorder"
    "HOL-Library.Multiset"
begin

section \<open>Python strings and the library functions used by tests/tester.py\<close>

text \<open>
  A Python \<open>str\<close> is modelled as a \<open>string\<close>; each \<open>char\<close> stands for one code
  point below 256. The functions of this section model the standard-library calls that
  \<open>tester.py\<close> makes and whose results the harness depends on.
\<close>

abbreviation LF :: char where "LF \<equiv> CHR 0x0A"
abbreviation CR :: char where "CR \<equiv> CHR 0x0D"

text \<open>\<open>"\n".join(lines)\<close>.\<close>

fun join_lines :: "string list \<Rightarrow> string" where
  "join_lines [] = []"
| "join_lines [l] = l"
| "join_lines (l # m # ls) = l @ [LF] @ join_lines (m # ls)"

text \<open>
  \<open>str.splitlines()\<close>: the line boundaries among the code points below 256 are
  \<open>\n\<close>, \<open>\r\<close>, \<open>\r\n\<close>, \<open>\v\<close>, \<open>\f\<close>, \<open>\x1c\<close>, \<open>\x1d\<close>, \<open>\x1e\<close> and \<open>\x85\<close>; no empty last
  line is produced for a text that ends with a boundary. The flag of the helper says that
  the previous character was \<open>\r\<close>, so that a following \<open>\n\<close> belongs to the same boundary.
\<close>

definition is_linebreak :: "char \<Rightarrow> bool" where
  "is_linebreak c \<longleftrightarrow> c \<in> {LF, CR, CHR 0x0B, CHR 0x0C, CHR 0x1C, CHR 0x1D, CHR 0x1E, CHR 0x85}"

fun splitlines_from :: "bool \<Rightarrow> string \<Rightarrow> string list" where
  "splitlines_from after_cr [] = []"
| "splitlines_from after_cr (c # cs) =
     (if after_cr \<and> c = LF then splitlines_from False cs
      else if is_linebreak c then [] # splitlines_from (c = CR) cs
      else (case splitlines_from False cs of
              [] \<Rightarrow> [[c]]
            | l # ls \<Rightarrow> (c # l) # ls))"

definition splitlines :: "string \<Rightarrow> string list" where
  "splitlines s = splitlines_from False s"

text \<open>
  \<open>len(re.findall(r'^---', contents, flags=re.MULTILINE))\<close>: in multi-line mode \<open>^\<close>
  matches at the start of the text and immediately after each \<open>\n\<close>. The flag says that
  the scan position is such a place. After a match the scan resumes behind the three
  characters matched, which is not a line start.
\<close>

fun count_separators :: "bool \<Rightarrow> string \<Rightarrow> nat" where
  "count_separators bol [] = 0"
| "count_separators bol (c # cs) =
     (if bol \<and> prefix ''---'' (c # cs) then Suc (count_separators False (drop 2 cs))
      else count_separators (c = LF) cs)"

definition file_count :: "string \<Rightarrow> nat" where
  "file_count contents = count_separators True contents"

text \<open>\<open>str(i)\<close> for a non-negative integer: the unpadded decimal numeral.\<close>

definition digit_char :: "nat \<Rightarrow> char" where
  "digit_char d = ''0123456789'' ! d"

function str_nat :: "nat \<Rightarrow> string" where
  "str_nat n = (if n < 10 then [digit_char n] else str_nat (n div 10) @ [digit_char (n mod 10)])"
  by pat_completeness auto
termination
  by (relation "measure id") auto

declare str_nat.simps [simp del]

text \<open>\<open>os.path.join(a, b)\<close> of \<open>posixpath\<close>, for two components.\<close>

definition path_join :: "string \<Rightarrow> string \<Rightarrow> string" where
  "path_join a b =
     (if prefix ''/'' b then b
      else if a = [] \<or> suffix ''/'' a then a @ b
      else a @ ''/'' @ b)"

section \<open>The test-file parser (lines 26 to 31 of TestFile)\<close>

datatype exn = CalledProcessError int | IndexError | OSError

text \<open>
  The loop \<open>while len(lines[0]) == 0 or lines[0][0] != '$': lines.pop(0)\<close>. Reading
  \<open>lines[0]\<close> of an empty list raises \<open>IndexError\<close>; otherwise the loop returns the list
  that starts with the first line whose first character is \<open>$\<close>.
\<close>

fun skip_to_command :: "string list \<Rightarrow> exn + string list" where
  "skip_to_command [] = Inl IndexError"
| "skip_to_command (l # ls) =
     (if length l = 0 \<or> hd l \<noteq> CHR ''$'' then skip_to_command ls else Inr (l # ls))"

text \<open>
  Lines 26 to 31: the result is the pair of \<open>lines[0][2:]\<close> (the invocation template) and
  \<open>expected_output\<close>. The command string is built from the template by
  \<open>bloaty_invocation\<close> below.
\<close>

definition parse_test :: "string \<Rightarrow> exn + (string \<times> string)" where
  "parse_test contents =
     (case skip_to_command (splitlines contents) of
        Inl e \<Rightarrow> Inl e
      | Inr lines \<Rightarrow> Inr (drop 2 (hd lines), join_lines (tl lines) @ [LF]))"

definition bloaty_invocation :: "string \<Rightarrow> string \<Rightarrow> string" where
  "bloaty_invocation cwd template = path_join cwd template @ '' > actual''"

section \<open>The environment of the harness and its state\<close>

text \<open>
  What the operating system answers is a parameter of the model: the current directory,
  \<open>os.path.abspath\<close>, what is found at a path (a file with its text as \<open>read()\<close> returns it,
  or a directory with its entries in the order \<open>os.scandir\<close> lists them), the suffix that
  \<open>tempfile.mkdtemp\<close> chooses at its n-th call, and what an external program does: from its
  command line, its working directory and the files there, an exit status and the text
  written to standard output. \<open>shell_other\<close> answers for the command lines that the
  model of the shell below does not interpret: from the command line, the working
  directory and the files there, the exit status and the files that the directory holds
  afterwards. \<open>glob_other\<close> answers \<open>glob.glob\<close> for the patterns whose literal directory
  part is empty or holds one of the characters \<open>*?[\<close>.
\<close>

datatype fsnode = File string | Dir "(string \<times> fsnode) list"

record env =
  getcwd :: string
  abspath :: "string \<Rightarrow> string"
  node_at :: "string \<Rightarrow> fsnode option"
  mkdtemp_suffix :: "nat \<Rightarrow> string"
  program :: "string \<Rightarrow> string \<Rightarrow> (string \<rightharpoonup> string) \<Rightarrow> int \<times> string"
  shell_other :: "string \<Rightarrow> string \<Rightarrow> (string \<rightharpoonup> string) \<Rightarrow> int \<times> (string \<rightharpoonup> string)"
  glob_other :: "string \<Rightarrow> string list"

text \<open>
  The state: the module's globals \<open>successes\<close> and \<open>failures\<close>, the directories made by
  \<open>mkdtemp\<close> with their files, the number of \<open>mkdtemp\<close> calls so far, the lines printed and
  the child processes started (command line and working directory), oldest first.
\<close>

record state =
  successes :: nat
  failures :: "(string \<times> string) list"
  tmpdirs :: "string \<rightharpoonup> (string \<rightharpoonup> string)"
  mkdtemp_calls :: nat
  printed :: "string list"
  calls :: "(string \<times> string) list"

definition print_line :: "string \<Rightarrow> state \<Rightarrow> state" where
  "print_line s st = st\<lparr>printed := printed st @ [s]\<rparr>"

text \<open>
  \<open>tempfile.mkdtemp(prefix=...)\<close> makes an empty directory and returns its path: the
  prefix followed by the suffix that the environment chooses.
\<close>

definition mkdtemp :: "env \<Rightarrow> string \<Rightarrow> state \<Rightarrow> string \<times> state" where
  "mkdtemp e pfx st =
     (let d = pfx @ mkdtemp_suffix e (mkdtemp_calls st)
      in (d, st\<lparr>tmpdirs := (tmpdirs st)(d \<mapsto> Map.empty),
                 mkdtemp_calls := Suc (mkdtemp_calls st)\<rparr>))"

definition files_of :: "state \<Rightarrow> string \<Rightarrow> (string \<rightharpoonup> string)" where
  "files_of st d = (case tmpdirs st d of None \<Rightarrow> Map.empty | Some fs \<Rightarrow> fs)"

text \<open>
  The shell of \<open>subprocess.call(cmd, shell=True, cwd=d)\<close>. The harness splices the path
  of the test file and the invocation template into its command lines without quoting,
  so a command line can hold anything. The model interprets the simple command lines
  only: those without any character that the shell treats specially (comment, separator,
  redirection, grouping, expansion, quoting and escape characters, and the newline) and
  whose command word is an absolute path or one of the two programs that the harness
  names itself. Such a line is one command; the shell passes its words, expanded, to the
  program, which is the business of \<open>program\<close>. A line \<open>body > target\<close>, where \<open>body\<close>
  is simple and \<open>target\<close> is one plain word (a file name that is subject to no
  expansion and names no directory), creates or truncates \<open>target\<close> in \<open>d\<close>, runs
  \<open>body\<close> there and stores what it writes to standard output in \<open>target\<close>; a simple
  line without redirection is run as it is, and the programs so run change no file.
  Every other command line is left to \<open>shell_other\<close>, which may change the files of
  \<open>d\<close> in any way; like the programs, it changes nothing outside \<open>d\<close> and leaves \<open>d\<close>
  in place. The result is the exit status.
\<close>

definition shell_special :: "char \<Rightarrow> bool" where
  "shell_special c \<longleftrightarrow>
     c \<in> set [CHR ''#'', CHR '';'', CHR ''&'', CHR ''|'', CHR ''<'', CHR ''>'', CHR ''('',
              CHR '')'', CHR ''$'', CHR 0x60, CHR 0x5C, CHR 0x22, CHR 0x27, LF]"

definition shell_plain :: "string \<Rightarrow> bool" where
  "shell_plain s = list_all (\<lambda>c. \<not> shell_special c) s"

definition simple_command :: "string \<Rightarrow> bool" where
  "simple_command s \<longleftrightarrow>
     shell_plain s \<and> (prefix ''/'' s \<or> prefix ''yaml2obj '' s \<or> prefix ''diff '' s)"

definition plain_word :: "string \<Rightarrow> bool" where
  "plain_word w \<longleftrightarrow>
     w \<noteq> [] \<and> w \<noteq> ''.'' \<and> w \<noteq> ''..'' \<and> shell_plain w \<and>
     list_all (\<lambda>c. c \<notin> set [CHR '' '', CHR 0x09, CHR ''/'', CHR ''*'', CHR ''?'', CHR ''['',
                               CHR ''~'', CHR ''{'', CHR ''}'']) w"

fun split_redirect :: "string \<Rightarrow> (string \<times> string) option" where
  "split_redirect [] = None"
| "split_redirect (c # cs) =
     (case split_redirect cs of
        Some (body, target) \<Rightarrow> Some (c # body, target)
      | None \<Rightarrow> if prefix '' > '' (c # cs) then Some ([], drop 2 cs) else None)"

definition shell_unmodelled :: "env \<Rightarrow> string \<Rightarrow> string \<Rightarrow> state \<Rightarrow> int \<times> state" where
  "shell_unmodelled e cmd d st =
     (let r = shell_other e cmd d (files_of st d)
      in (fst r, st\<lparr>tmpdirs := (tmpdirs st)(d \<mapsto> snd r), calls := calls st @ [(cmd, d)]\<rparr>))"

definition sh :: "env \<Rightarrow> string \<Rightarrow> string \<Rightarrow> state \<Rightarrow> int \<times> state" where
  "sh e cmd d st =
     (case split_redirect cmd of
        None \<Rightarrow>
          if simple_command cmd
          then (fst (program e cmd d (files_of st d)), st\<lparr>calls := calls st @ [(cmd, d)]\<rparr>)
          else shell_unmodelled e cmd d st
      | Some (body, target) \<Rightarrow>
          if simple_command body \<and> plain_word target
          then (let opened = (files_of st d)(target \<mapsto> []);
                    r = program e body d opened
                in (fst r, st\<lparr>tmpdirs := (tmpdirs st)(d \<mapsto> opened(target \<mapsto> snd r)),
                               calls := calls st @ [(cmd, d)]\<rparr>))
          else shell_unmodelled e cmd d st)"

section \<open>TestFile\<close>

text \<open>Line 25: the command line of the fixture compiler for document \<open>i\<close>.\<close>

definition yaml2obj_command :: "string \<Rightarrow> nat \<Rightarrow> string" where
  "yaml2obj_command ap i =
     ''yaml2obj '' @ ap @ '' --docnum='' @ str_nat i @ '' > '' @ str_nat i"

text \<open>
  Lines 24 and 25: \<open>subprocess.check_call\<close> raises \<open>CalledProcessError\<close> at the first
  nonzero exit status, which ends the loop.
\<close>

fun provision :: "env \<Rightarrow> string \<Rightarrow> string \<Rightarrow> nat list \<Rightarrow> state \<Rightarrow> exn option \<times> state" where
  "provision e ap tmpdir [] st = (None, st)"
| "provision e ap tmpdir (i # rest) st =
     (case sh e (yaml2obj_command ap i) tmpdir st of
        (rc, st') \<Rightarrow>
          if rc \<noteq> 0 then (Some (CalledProcessError rc), st')
          else provision e ap tmpdir rest st')"

text \<open>Lines 36 to 39: write \<open>expected\<close>, run \<open>diff\<close>.\<close>

definition write_file :: "string \<Rightarrow> string \<Rightarrow> string \<Rightarrow> state \<Rightarrow> state" where
  "write_file d name text st = st\<lparr>tmpdirs := (tmpdirs st)(d \<mapsto> (files_of st d)(name \<mapsto> text))\<rparr>"

definition verify :: "env \<Rightarrow> string \<Rightarrow> string \<Rightarrow> state \<Rightarrow> string option \<times> state" where
  "verify e tmpdir expected_output st =
     (case sh e ''diff -u expected actual'' tmpdir
             (write_file tmpdir ''expected'' expected_output st) of
        (rc, st') \<Rightarrow> (if rc \<noteq> 0 then Some ''FAILED'' else None, st'))"

text \<open>Lines 32 to 39: the value of \<open>failure\<close> after the invocation.\<close>

definition run_and_verify ::
  "env \<Rightarrow> string \<Rightarrow> string \<Rightarrow> string \<Rightarrow> state \<Rightarrow> string option \<times> state" where
  "run_and_verify e invocation tmpdir expected_output st =
     (case sh e invocation tmpdir st of
        (rc, st') \<Rightarrow>
          if rc \<noteq> 0 then (Some ''CRASHED'', st')
          else verify e tmpdir expected_output st')"

text \<open>Lines 41 to 47. \<open>if failure:\<close> holds for a string that is not empty.\<close>

definition truthy :: "string option \<Rightarrow> bool" where
  "truthy failure = (case failure of None \<Rightarrow> False | Some tag \<Rightarrow> tag \<noteq> [])"

definition record_result :: "string \<Rightarrow> string \<Rightarrow> string option \<Rightarrow> state \<Rightarrow> state" where
  "record_result filename tmpdir failure st =
     (if truthy failure then
        (let st1 = print_line (the failure @ '': '' @ filename) st;
             st2 = print_line (the failure @ '': output in '' @ tmpdir) st1
         in st2\<lparr>failures := failures st2 @ [(filename, tmpdir)]\<rparr>)
      else st\<lparr>successes := Suc (successes st), tmpdirs := (tmpdirs st)(tmpdir := None)\<rparr>)"

text \<open>
  \<open>TestFile(filename)\<close>. The result is the exception that leaves the function, or the
  value of the local variable \<open>failure\<close> at its end, and the state reached.
\<close>

definition TestFile :: "env \<Rightarrow> string \<Rightarrow> state \<Rightarrow> (exn + string option) \<times> state" where
  "TestFile e filename st =
     (case node_at e (abspath e filename) of
        Some (File contents) \<Rightarrow>
          (case mkdtemp e ''/tmp/bloaty-'' (print_line filename st) of
             (tmpdir, st1) \<Rightarrow>
               (case provision e (abspath e filename) tmpdir [1..<Suc (file_count contents)] st1 of
                  (Some x, st2) \<Rightarrow> (Inl x, st2)
                | (None, st2) \<Rightarrow>
                    (case parse_test contents of
                       Inl x \<Rightarrow> (Inl x, st2)
                     | Inr (template, expected_output) \<Rightarrow>
                         (case run_and_verify e (bloaty_invocation (getcwd e) template)
                                 tmpdir expected_output st2 of
                            (failure, st3) \<Rightarrow>
                              (Inr failure, record_result filename tmpdir failure st3)))))
      | _ \<Rightarrow> (Inl OSError, st))"

text \<open>The directory that \<open>TestFile\<close> makes when it starts in state \<open>st\<close>.\<close>

definition tmpdir_of :: "env \<Rightarrow> state \<Rightarrow> string" where
  "tmpdir_of e st = ''/tmp/bloaty-'' @ mkdtemp_suffix e (mkdtemp_calls st)"

text \<open>The outcome of a test case, in the words of the specification.\<close>

datatype outcome = Pass | Crashed | Mismatch | ProvisioningError | FormatError | Unreadable

definition outcome_of :: "exn + string option \<Rightarrow> outcome" where
  "outcome_of r =
     (case r of
        Inl (CalledProcessError rc) \<Rightarrow> ProvisioningError
      | Inl IndexError \<Rightarrow> FormatError
      | Inl OSError \<Rightarrow> Unreadable
      | Inr failure \<Rightarrow>
          if \<not> truthy failure then Pass
          else if failure = Some ''CRASHED'' then Crashed else Mismatch)"

section \<open>Discovery and the suite\<close>

text \<open>
  \<open>os.path.split\<close> of \<open>posixpath\<close>: the tail is what follows the last \<open>/\<close>; the head is
  what precedes it, without its trailing slashes unless it consists of slashes only.
\<close>

definition rstrip_sep :: "string \<Rightarrow> string" where
  "rstrip_sep s = rev (dropWhile (\<lambda>c. c = CHR ''/'') (rev s))"

definition os_path_split :: "string \<Rightarrow> string \<times> string" where
  "os_path_split p =
     (let tail = rev (takeWhile (\<lambda>c. c \<noteq> CHR ''/'') (rev p));
          head = take (length p - length tail) p
      in (if head \<noteq> [] \<and> head \<noteq> replicate (length head) (CHR ''/'') then rstrip_sep head
          else head, tail))"

text \<open>
  The helpers of \<open>glob\<close>: \<open>has_magic\<close>, \<open>_ishidden\<close> (the name of a directory entry is
  never empty), the match of \<open>fnmatch\<close> against \<open>*.test\<close>, and \<open>_rlistdir\<close> with
  \<open>dironly\<close> set, which lists the subdirectories that are not hidden, at any depth, each
  by its relative path and here together with its entries.
\<close>

definition has_magic :: "string \<Rightarrow> bool" where
  "has_magic s = list_ex (\<lambda>c. c = CHR ''*'' \<or> c = CHR ''?'' \<or> c = CHR ''['') s"

definition ishidden :: "string \<Rightarrow> bool" where
  "ishidden x = prefix ''.'' x"

definition fnmatch_test :: "string \<Rightarrow> bool" where
  "fnmatch_test name = suffix ''.test'' name"

function rlistdir :: "(string \<times> fsnode) list \<Rightarrow> (string \<times> (string \<times> fsnode) list) list" where
  "rlistdir [] = []"
| "rlistdir ((x, File c) # es) = rlistdir es"
| "rlistdir ((x, Dir sub) # es) =
     (if ishidden x then []
      else (x, sub) # map (\<lambda>(y, s). (path_join x y, s)) (rlistdir sub)) @ rlistdir es"
  by pat_completeness auto
termination
  by (relation "measure (size_list (size_prod (\<lambda>_. 0) size))") auto

text \<open>\<open>_glob1(dirname, "*.test")\<close>: the names in one directory that match.\<close>

definition glob1_test :: "(string \<times> fsnode) list \<Rightarrow> string list" where
  "glob1_test es = filter fnmatch_test (filter (\<lambda>x. \<not> ishidden x) (map fst es))"

text \<open>
  \<open>glob.glob(os.path.join(arg, "**/*.test"), recursive=True)\<close>: the pattern is split
  twice, into the literal directory, \<open>**\<close> and \<open>*.test\<close>. \<open>**\<close> stands for the literal
  directory itself (joined with the empty name) and for each directory that \<open>_rlistdir\<close>
  lists; \<open>*.test\<close> is matched in each of them, in that order.
\<close>

definition glob_dirname :: "string \<Rightarrow> string" where
  "glob_dirname pathname = fst (os_path_split (fst (os_path_split pathname)))"

definition glob_tests :: "env \<Rightarrow> string \<Rightarrow> string list" where
  "glob_tests e arg =
     (let pathname = path_join arg ''**/*.test'';
          dirname = glob_dirname pathname
      in if dirname = [] \<or> has_magic dirname then glob_other e pathname
         else (case node_at e dirname of
                 Some (Dir es) \<Rightarrow>
                   concat (map (\<lambda>(d, sub). map (path_join d) (glob1_test sub))
                             ((path_join dirname [], es) #
                              map (\<lambda>(y, s). (path_join dirname y, s)) (rlistdir es)))
               | _ \<Rightarrow> []))"

definition isdir :: "env \<Rightarrow> string \<Rightarrow> bool" where
  "isdir e p = (case node_at e p of Some (Dir es) \<Rightarrow> True | _ \<Rightarrow> False)"

text \<open>
  A \<open>for file in files: TestFile(file)\<close> loop; an exception that leaves \<open>TestFile\<close> is
  caught nowhere and leaves the loop too.
\<close>

fun run_files :: "env \<Rightarrow> string list \<Rightarrow> state \<Rightarrow> exn option \<times> state" where
  "run_files e [] st = (None, st)"
| "run_files e (f # fs) st =
     (case TestFile e f st of
        (Inl x, st') \<Rightarrow> (Some x, st')
      | (Inr failure, st') \<Rightarrow> run_files e fs st')"

definition TestArg :: "env \<Rightarrow> string \<Rightarrow> state \<Rightarrow> exn option \<times> state" where
  "TestArg e arg st =
     (if isdir e arg then run_files e (sort (glob_tests e arg)) st
      else (case TestFile e arg st of
              (Inl x, st') \<Rightarrow> (Some x, st')
            | (Inr failure, st') \<Rightarrow> (None, st')))"

text \<open>Lines 63 and 64.\<close>

fun run_args :: "env \<Rightarrow> string list \<Rightarrow> state \<Rightarrow> exn option \<times> state" where
  "run_args e [] st = (None, st)"
| "run_args e (arg # args) st =
     (case TestArg e arg st of
        (Some x, st') \<Rightarrow> (Some x, st')
      | (None, st') \<Rightarrow> run_args e args st')"

text \<open>
  The module body, lines 11, 12 and 57 to 72: from \<open>sys.argv\<close> and the directories that
  exist under \<open>/tmp\<close>, the exit status of the process and the final state. An uncaught
  exception ends the interpreter with status 1 (the traceback goes to standard error);
  reaching the end of the module ends it with status 0.
\<close>

definition initial_state :: "(string \<rightharpoonup> (string \<rightharpoonup> string)) \<Rightarrow> state" where
  "initial_state tmp =
     \<lparr>successes = 0, failures = [], tmpdirs = tmp, mkdtemp_calls = 0, printed = [], calls = []\<rparr>"

definition print_failures :: "state \<Rightarrow> state" where
  "print_failures st =
     fold (\<lambda>(f, d). print_line (''  - '' @ f @ '' (output in '' @ d @ '')'')) (failures st)
       (print_line ([LF] @ ''FAILURE: '' @ str_nat (successes st) @ '' tests passed, '' @
                    str_nat (length (failures st)) @ '' tests failed:'') st)"

definition tester :: "env \<Rightarrow> string list \<Rightarrow> (string \<rightharpoonup> (string \<rightharpoonup> string)) \<Rightarrow> int \<times> state" where
  "tester e argv tmp =
     (let args = drop 1 argv in
      if args = [] then (1, print_line ''Usage: tester.py <FILE-OR-DIR> ...'' (initial_state tmp))
      else (case run_args e (drop 1 argv) (initial_state tmp) of
              (Some x, st) \<Rightarrow> (1, st)
            | (None, st) \<Rightarrow>
                if failures st = []
                then (0, print_line (''SUCCESS: '' @ str_nat (successes st) @ '' test(s) passed'') st)
                else (1, print_failures st)))"

section \<open>The test cases of a run\<close>

text \<open>
  The files that the arguments stand for, and the results of the cases that a loop runs:
  one result for each file up to and with the first one that raises.
\<close>

definition discovered :: "env \<Rightarrow> string list \<Rightarrow> string list" where
  "discovered e args =
     concat (map (\<lambda>arg. if isdir e arg then sort (glob_tests e arg) else [arg]) args)"

fun case_log :: "env \<Rightarrow> string list \<Rightarrow> state \<Rightarrow> (string \<times> string \<times> outcome) list" where
  "case_log e [] st = []"
| "case_log e (f # fs) st =
     (case TestFile e f st of
        (Inl x, st') \<Rightarrow> [(f, tmpdir_of e st, outcome_of (Inl x))]
      | (Inr failure, st') \<Rightarrow> (f, tmpdir_of e st, outcome_of (Inr failure)) # case_log e fs st')"

text \<open>
  The state in which the fixtures of a case have been made (lines 20 to 25), with the
  exception that ended the loop, if any; and the exit status and the state after the
  invocation of line 33 when it is run in that state (status 0 and no change for a file
  without a command line, for which line 33 is not reached).
\<close>

definition provisioned :: "env \<Rightarrow> string \<Rightarrow> string \<Rightarrow> state \<Rightarrow> exn option \<times> state" where
  "provisioned e filename contents st =
     provision e (abspath e filename) (tmpdir_of e st) [1..<Suc (file_count contents)]
       (snd (mkdtemp e ''/tmp/bloaty-'' (print_line filename st)))"

definition sut_run :: "env \<Rightarrow> string \<Rightarrow> string \<Rightarrow> state \<Rightarrow> int \<times> state" where
  "sut_run e filename contents st =
     (case parse_test contents of
        Inl x \<Rightarrow> (0, snd (provisioned e filename contents st))
      | Inr (template, expected_output) \<Rightarrow>
          sh e (bloaty_invocation (getcwd e) template) (tmpdir_of e st)
            (snd (provisioned e filename contents st)))"

section \<open>The wording of the specification\<close>

text \<open>
  The lines of a text for a line-anchored scan (the pieces between the \<open>\n\<close>), the number
  of lines that are exactly the document separator, and the number of lines that begin
  with it.
\<close>

fun lines_nl :: "string \<Rightarrow> string list" where
  "lines_nl [] = [[]]"
| "lines_nl (c # cs) =
     (if c = LF then [] # lines_nl cs
      else (case lines_nl cs of [] \<Rightarrow> [[c]] | l # ls \<Rightarrow> (c # l) # ls))"

definition exact_separator_lines :: "string \<Rightarrow> nat" where
  "exact_separator_lines contents = length (filter (\<lambda>l. l = ''---'') (lines_nl contents))"

definition separator_lines :: "string \<Rightarrow> nat" where
  "separator_lines contents = length (filter (prefix ''---'') (lines_nl contents))"






text \<open>
  The files below a directory, at any depth, whose name ends in \<open>.test\<close>, each by its
  path relative to the directory; and the entries that \<open>glob\<close> can reach: those whose name
  ends in \<open>.test\<close> and does not begin with a dot, in the directory or in a subdirectory
  reached through names that do not begin with a dot.
\<close>

function test_files_under :: "(string \<times> fsnode) list \<Rightarrow> string list" where
  "test_files_under [] = []"
| "test_files_under ((x, File c) # es) =
     (if suffix ''.test'' x then [x] else []) @ test_files_under es"
| "test_files_under ((x, Dir sub) # es) =
     map (path_join x) (test_files_under sub) @ test_files_under es"
  by pat_completeness auto
termination
  by (relation "measure (size_list (size_prod (\<lambda>_. 0) size))") auto

function visible_tests :: "(string \<times> fsnode) list \<Rightarrow> string list" where
  "visible_tests [] = []"
| "visible_tests ((x, File c) # es) =
     (if \<not> ishidden x \<and> suffix ''.test'' x then [x] else []) @ visible_tests es"
| "visible_tests ((x, Dir sub) # es) =
     (if ishidden x then []
      else (if suffix ''.test'' x then [x] else []) @ map (path_join x) (visible_tests sub))
     @ visible_tests es"
  by pat_completeness auto
termination
  by (relation "measure (size_list (size_prod (\<lambda>_. 0) size))") auto

text \<open>
  The names of directory entries are not empty and hold no \<open>/\<close>, at any depth.
\<close>

function wf_names :: "(string \<times> fsnode) list \<Rightarrow> bool" where
  "wf_names [] = True"
| "wf_names ((x, File c) # es) = (x \<noteq> [] \<and> CHR ''/'' \<notin> set x \<and> wf_names es)"
| "wf_names ((x, Dir sub) # es) = (x \<noteq> [] \<and> CHR ''/'' \<notin> set x \<and> wf_names sub \<and> wf_names es)"
  by pat_completeness auto
termination
  by (relation "measure (size_list (size_prod (\<lambda>_. 0) size))") auto


section \<open>A concrete environment\<close>

text \<open>
  A directory \<open>t\<close> below the current directory \<open>/w\<close> with test files, a fixture compiler
  that fails on the files whose name begins with \<open>bad\<close>, a shell that refuses every
  command line that is not simple, a \<open>diff\<close> that compares the two files, a program
  \<open>crash\<close> that prints \<open>boom\<close> and exits with status 1, and any other program printing
  \<open>ok\<close> and exiting with status 0.
\<close>

definition demo_sub :: "(string \<times> fsnode) list" where
  "demo_sub = [(''deep.test'', File (''$ bloaty'' @ [LF] @ ''ok'' @ [LF]))]"

definition demo_files :: "(string \<times> fsnode) list" where
  "demo_files =
     [(''pass.test'', File (''--- !ELF'' @ [LF] @ ''$ bloaty 1'' @ [LF] @ ''ok'' @ [LF])),
      (''crash.test'', File (''$ crash'' @ [LF] @ ''boom'' @ [LF])),
      (''diff.test'', File (''$ bloaty'' @ [LF] @ ''other'' @ [LF])),
      (''bad.test'', File (''---'' @ [LF] @ ''---'' @ [LF] @ ''$ bloaty 1 2'' @ [LF] @ ''ok'' @ [LF])),
      (''nocmd.test'', File (''--- !ELF'' @ [LF] @ ''Sections:'' @ [LF])),
      (''badnocmd.test'', File (''---'' @ [LF] @ ''---'' @ [LF])),
      (''notes.txt'', File ''x''),
      (''.hid'', Dir [(''h.test'', File (''$ bloaty'' @ [LF] @ ''ok'' @ [LF]))]),
      (''more.test'', Dir []),
      (''sub'', Dir demo_sub)]"

definition demo_node_at :: "string \<Rightarrow> fsnode option" where
  "demo_node_at p =
     (if p = ''t'' \<or> p = ''/w/t'' then Some (Dir demo_files)
      else if prefix ''/w/t/sub/'' p then map_of demo_sub (drop 9 p)
      else if prefix ''/w/t/'' p then map_of demo_files (drop 5 p)
      else None)"

definition demo_program :: "string \<Rightarrow> string \<Rightarrow> (string \<rightharpoonup> string) \<Rightarrow> int \<times> string" where
  "demo_program cmd d files =
     (if prefix ''yaml2obj /w/t/bad'' cmd then (1, [])
      else if prefix ''yaml2obj '' cmd then (0, ''ELF'')
      else if cmd = ''diff -u expected actual''
        then (if files ''expected'' = files ''actual'' then (0, []) else (1, ''differ''))
      else if cmd = ''/w/crash'' then (1, ''boom'' @ [LF])
      else (0, ''ok'' @ [LF]))"

definition demo_env :: env where
  "demo_env =
     \<lparr>getcwd = ''/w'', abspath = path_join ''/w'', node_at = demo_node_at,
      mkdtemp_suffix = str_nat, program = demo_program,
      shell_other = (\<lambda>cmd d files. (2, files)), glob_other = (\<lambda>p. [])\<rparr>"

section \<open>Properties of the parser\<close>

lemma skip_to_command_decompose:
  "skip_to_command ls = Inr r \<Longrightarrow>
     \<exists>pre l rest. ls = pre @ l # rest \<and> r = l # rest \<and> prefix ''$'' l \<and>
       (\<forall>p \<in> set pre. \<not> prefix ''$'' p)"
proof (induction ls)
  case Nil
  then show ?case by simp
next
  case (Cons a ls)
  show ?case
  proof (cases "length a = 0 \<or> hd a \<noteq> CHR ''$''")
    case True
    with Cons.prems have "skip_to_command ls = Inr r" by simp
    from Cons.IH [OF this] obtain pre l rest where
      h: "ls = pre @ l # rest" "r = l # rest" "prefix ''$'' l" "\<forall>p \<in> set pre. \<not> prefix ''$'' p"
      by blast
    from True have "\<not> prefix ''$'' a" by (cases a) auto
    with h have "a # ls = (a # pre) @ l # rest \<and> r = l # rest \<and> prefix ''$'' l \<and>
       (\<forall>p \<in> set (a # pre). \<not> prefix ''$'' p)" by simp
    then show ?thesis by blast
  next
    case False
    with Cons.prems have r: "r = a # ls" by auto
    from False have "prefix ''$'' a" by (cases a) auto
    with r have "a # ls = [] @ a # ls \<and> r = a # ls \<and> prefix ''$'' a \<and>
       (\<forall>p \<in> set []. \<not> prefix ''$'' p)" by simp
    then show ?thesis by blast
  qed
qed

lemma skip_to_command_found:
  "\<forall>p \<in> set pre. \<not> prefix ''$'' p \<Longrightarrow> prefix ''$'' l \<Longrightarrow>
     skip_to_command (pre @ l # rest) = Inr (l # rest)"
proof (induction pre)
  case Nil
  then show ?case by (cases l) auto
next
  case (Cons a pre)
  then have "\<not> prefix ''$'' a" by simp
  then have "length a = 0 \<or> hd a \<noteq> CHR ''$''" by (cases a) auto
  with Cons show ?case by simp
qed

lemma skip_to_command_none:
  "skip_to_command ls = Inl e \<longleftrightarrow> e = IndexError \<and> (\<forall>l \<in> set ls. \<not> prefix ''$'' l)"
proof (induction ls)
  case Nil
  then show ?case by auto
next
  case (Cons a ls)
  show ?case
  proof (cases "length a = 0 \<or> hd a \<noteq> CHR ''$''")
    case True
    then have "\<not> prefix ''$'' a" by (cases a) auto
    with True Cons show ?thesis by simp
  next
    case False
    then have "prefix ''$'' a" by (cases a) auto
    with False show ?thesis by auto
  qed
qed

lemma join_lines_trailing:
  "join_lines ls @ [LF] = (if ls = [] then [LF] else concat (map (\<lambda>l. l @ [LF]) ls))"
  by (induction ls rule: join_lines.induct) simp_all

text \<open>
  C4. When the lines of the file are \<open>pre @ l # rest\<close>, where \<open>l\<close> is the first line
  that starts with \<open>$\<close>, the expected output is the lines \<open>rest\<close> joined by single
  newlines with one newline appended: each line followed by a newline, and a single newline
  when \<open>rest\<close> is empty.
\<close>

theorem C4_expected_output:
  assumes "splitlines contents = pre @ l # rest"
    and "\<forall>p \<in> set pre. \<not> prefix ''$'' p"
    and "prefix ''$'' l"
  shows "parse_test contents = Inr (drop 2 l, join_lines rest @ [LF])
       \<and> join_lines rest @ [LF] = (if rest = [] then [LF] else concat (map (\<lambda>r. r @ [LF]) rest))"
  using assms skip_to_command_found [of pre l rest]
  by (simp add: parse_test_def join_lines_trailing)

text \<open>A file whose expected output has an empty line, and a file that ends with its command line.\<close>

theorem C4_expected_output_witness:
  "splitlines (''$ echo hi'' @ [LF] @ ''hi'' @ [LF] @ [LF] @ ''x'') = [] @ ''$ echo hi'' # [''hi'', [], ''x'']
   \<and> parse_test (''$ echo hi'' @ [LF] @ ''hi'' @ [LF] @ [LF] @ ''x'') = Inr (''echo hi'', ''hi'' @ [LF] @ [LF] @ ''x'' @ [LF])
   \<and> parse_test ''$ true'' = Inr (''true'', [LF])"
proof -
  have s1: "splitlines (''$ echo hi'' @ [LF] @ ''hi'' @ [LF] @ [LF] @ ''x'') = [] @ ''$ echo hi'' # [''hi'', [], ''x'']"
    by (simp add: splitlines_def is_linebreak_def)
  have s2: "splitlines ''$ true'' = [] @ ''$ true'' # []"
    by (simp add: splitlines_def is_linebreak_def)
  show ?thesis
    using s1 s2 C4_expected_output [OF s1] C4_expected_output [OF s2] by simp
qed

section \<open>Decimal numerals\<close>

lemma digit_char_inj: "a < 10 \<Longrightarrow> b < 10 \<Longrightarrow> digit_char a = digit_char b \<Longrightarrow> a = b"
proof -
  assume "a < 10" "b < 10" "digit_char a = digit_char b"
  moreover have "distinct ''0123456789''" by simp
  ultimately show ?thesis
    by (simp add: digit_char_def nth_eq_iff_index_eq)
qed

lemma str_nat_length_small: "n < 10 \<Longrightarrow> str_nat n = [digit_char n]"
  by (simp add: str_nat.simps)

lemma str_nat_large: "\<not> n < 10 \<Longrightarrow> str_nat n = str_nat (n div 10) @ [digit_char (n mod 10)]"
  by (subst str_nat.simps) simp

lemma str_nat_nonempty: "str_nat n \<noteq> []"
  by (subst str_nat.simps) simp

lemma str_nat_inj: "str_nat n = str_nat m \<Longrightarrow> n = m"
proof (induction n arbitrary: m rule: str_nat.induct)
  case (1 n)
  show ?case
  proof (cases "n < 10")
    case True
    show ?thesis
    proof (cases "m < 10")
      case True
      with \<open>n < 10\<close> "1.prems" show ?thesis
        by (simp add: str_nat_length_small digit_char_inj)
    next
      case False
      with \<open>n < 10\<close> "1.prems" show ?thesis
        using str_nat_nonempty [of "m div 10"]
        by (simp add: str_nat_length_small str_nat_large)
    qed
  next
    case False
    show ?thesis
    proof (cases "m < 10")
      case True
      with \<open>\<not> n < 10\<close> "1.prems" show ?thesis
        using str_nat_nonempty [of "n div 10"]
        by (simp add: str_nat_length_small str_nat_large)
    next
      case mbig: False
      with False "1.prems" have eq: "str_nat (n div 10) = str_nat (m div 10)"
        and d: "digit_char (n mod 10) = digit_char (m mod 10)"
        by (simp_all add: str_nat_large)
      from "1.IH" [OF False eq] have "n div 10 = m div 10" .
      moreover from d have "n mod 10 = m mod 10"
        by (intro digit_char_inj) simp_all
      ultimately show ?thesis
        by (metis div_mult_mod_eq)
    qed
  qed
qed

lemma digit_char_range: "d < 10 \<Longrightarrow> digit_char d \<in> set ''0123456789''"
  unfolding digit_char_def by (rule nth_mem) simp

lemma str_nat_digits: "set (str_nat n) \<subseteq> set ''0123456789''"
proof (induction n rule: str_nat.induct)
  case (1 n)
  show ?case
  proof (cases "n < 10")
    case True
    then show ?thesis
      using digit_char_range [of n] by (simp add: str_nat_length_small)
  next
    case False
    then show ?thesis
      using "1.IH" digit_char_range [of "n mod 10"] by (simp add: str_nat_large)
  qed
qed

lemma str_nat_no_gt: "CHR ''>'' \<notin> set (str_nat n)"
  using str_nat_digits [of n] by auto

lemma str_nat_not_name: "c \<notin> set ''0123456789'' \<Longrightarrow> c \<in> set name \<Longrightarrow> str_nat n \<noteq> name"
  using str_nat_digits [of n] by auto

lemma card_str_nat_image: "card (str_nat ` {1..n}) = n"
proof -
  have "inj_on str_nat {1..n}"
    by (rule inj_onI) (rule str_nat_inj)
  then show ?thesis
    by (simp add: card_image)
qed

section \<open>The shell\<close>

lemma prefix_Cons_mem: "prefix (a # as) s \<Longrightarrow> a \<in> set s"
  by (auto simp: prefix_def)

lemma split_redirect_none: "CHR ''>'' \<notin> set s \<Longrightarrow> split_redirect s = None"
proof (induction s)
  case Nil
  then show ?case by simp
next
  case (Cons c s)
  have "\<not> prefix ''> '' s"
    using Cons.prems prefix_Cons_mem [of "CHR ''>''" "'' ''" s] by auto
  with Cons show ?case by simp
qed

lemma split_redirect_here:
  "CHR ''>'' \<notin> set t \<Longrightarrow> split_redirect ('' > '' @ t) = Some ([], t)"
  using prefix_Cons_mem [of "CHR ''>''" "'' ''" t]
  by (auto simp: split_redirect_none)

lemma split_redirect_append:
  "CHR ''>'' \<notin> set t \<Longrightarrow> split_redirect (b @ '' > '' @ t) = Some (b, t)"
proof (induction b)
  case Nil
  then show ?case using split_redirect_here [of t] by simp
next
  case (Cons a b)
  then show ?case by simp
qed

lemma split_redirect_yaml2obj:
  "split_redirect (yaml2obj_command ap i) =
     Some (''yaml2obj '' @ ap @ '' --docnum='' @ str_nat i, str_nat i)"
  using split_redirect_append [of "str_nat i" "''yaml2obj '' @ ap @ '' --docnum='' @ str_nat i"]
    str_nat_no_gt [of i]
  by (simp add: yaml2obj_command_def)

lemma split_redirect_invocation:
  "split_redirect (bloaty_invocation cwd t) = Some (path_join cwd t, ''actual'')"
  using split_redirect_append [of "''actual''" "path_join cwd t"]
  by (simp add: bloaty_invocation_def)

lemma split_redirect_diff: "split_redirect ''diff -u expected actual'' = None"
  by (simp add: split_redirect_none)

lemma shell_plain_append: "shell_plain (a @ b) \<longleftrightarrow> shell_plain a \<and> shell_plain b"
  by (simp add: shell_plain_def)

lemma shell_plain_str_nat: "shell_plain (str_nat n)"
  using str_nat_digits [of n]
  by (auto simp: shell_plain_def shell_special_def list_all_iff)

lemma plain_word_str_nat: "plain_word (str_nat n)"
  using str_nat_digits [of n] str_nat_nonempty [of n] shell_plain_str_nat [of n]
  by (auto simp: plain_word_def list_all_iff)

lemma plain_word_actual: "plain_word ''actual''"
  by (simp add: plain_word_def shell_plain_def shell_special_def)

lemma simple_command_yaml2obj:
  "shell_plain ap \<Longrightarrow> simple_command (''yaml2obj '' @ ap @ '' --docnum='' @ str_nat i)"
  using shell_plain_str_nat [of i]
  by (simp add: simple_command_def shell_plain_def shell_special_def)

lemma simple_command_diff: "simple_command ''diff -u expected actual''"
  by (simp add: simple_command_def shell_plain_def shell_special_def)

lemma sh_frame:
  assumes "sh e cmd d st = (rc, st')"
  shows "successes st' = successes st" "failures st' = failures st"
    "printed st' = printed st" "mkdtemp_calls st' = mkdtemp_calls st"
    "calls st' = calls st @ [(cmd, d)]"
    "d' \<noteq> d \<Longrightarrow> tmpdirs st' d' = tmpdirs st d'"
    "d \<in> dom (tmpdirs st) \<Longrightarrow> d \<in> dom (tmpdirs st')"
  using assms
  by (auto simp: sh_def shell_unmodelled_def Let_def split: option.splits prod.splits if_splits)

lemma sh_yaml2obj:
  "shell_plain ap \<Longrightarrow>
   sh e (yaml2obj_command ap i) d st =
     (let r = program e (''yaml2obj '' @ ap @ '' --docnum='' @ str_nat i) d
                ((files_of st d)(str_nat i \<mapsto> []))
      in (fst r, st\<lparr>tmpdirs := (tmpdirs st)(d \<mapsto> (files_of st d)(str_nat i \<mapsto> snd r)),
                     calls := calls st @ [(yaml2obj_command ap i, d)]\<rparr>))"
  using simple_command_yaml2obj [of ap i] plain_word_str_nat [of i]
  by (simp add: sh_def split_redirect_yaml2obj Let_def)

lemma sh_invocation:
  "simple_command (path_join cwd t) \<Longrightarrow>
   sh e (bloaty_invocation cwd t) d st =
     (let r = program e (path_join cwd t) d ((files_of st d)(''actual'' \<mapsto> []))
      in (fst r, st\<lparr>tmpdirs := (tmpdirs st)(d \<mapsto> (files_of st d)(''actual'' \<mapsto> snd r)),
                     calls := calls st @ [(bloaty_invocation cwd t, d)]\<rparr>))"
  using plain_word_actual
  by (simp add: sh_def split_redirect_invocation Let_def)

lemma sh_diff:
  "sh e ''diff -u expected actual'' d st =
     (fst (program e ''diff -u expected actual'' d (files_of st d)),
      st\<lparr>calls := calls st @ [(''diff -u expected actual'', d)]\<rparr>)"
  using split_redirect_diff simple_command_diff by (simp add: sh_def)

text \<open>
  A path or a template with a character that is special to the shell gives a command
  line that the model does not interpret.
\<close>

lemma sh_yaml2obj_unmodelled:
  "\<not> shell_plain ap \<Longrightarrow>
   sh e (yaml2obj_command ap i) d st = shell_unmodelled e (yaml2obj_command ap i) d st"
proof -
  assume "\<not> shell_plain ap"
  then have "\<not> simple_command (''yaml2obj '' @ ap @ '' --docnum='' @ str_nat i)"
    unfolding simple_command_def shell_plain_append by simp
  then show ?thesis
    by (simp only: sh_def split_redirect_yaml2obj) simp
qed

lemma sh_invocation_unmodelled:
  "\<not> shell_plain (path_join cwd t) \<Longrightarrow>
   sh e (bloaty_invocation cwd t) d st = shell_unmodelled e (bloaty_invocation cwd t) d st"
  by (simp add: sh_def split_redirect_invocation simple_command_def)

lemma sh_yaml2obj_files:
  assumes "shell_plain ap" and "sh e (yaml2obj_command ap i) d st = (rc, st')"
  shows "dom (files_of st' d) = insert (str_nat i) (dom (files_of st d))"
  using assms(2) by (auto simp: sh_yaml2obj [OF assms(1)] Let_def files_of_def)

section \<open>The fixture provisioner\<close>

lemma provision_frame:
  assumes "provision e ap d idx st = (x, st')"
  shows "successes st' = successes st \<and> failures st' = failures st \<and>
    printed st' = printed st \<and> mkdtemp_calls st' = mkdtemp_calls st \<and>
    (\<forall>d'. d' \<noteq> d \<longrightarrow> tmpdirs st' d' = tmpdirs st d') \<and>
    (d \<in> dom (tmpdirs st) \<longrightarrow> d \<in> dom (tmpdirs st'))"
  using assms
proof (induction idx arbitrary: st)
  case Nil
  then show ?case by simp
next
  case (Cons i idx)
  obtain rc st1 where s: "sh e (yaml2obj_command ap i) d st = (rc, st1)"
    by (cases "sh e (yaml2obj_command ap i) d st")
  note fr = sh_frame [OF s]
  show ?case
  proof (cases "rc = 0")
    case True
    with Cons.prems s have "provision e ap d idx st1 = (x, st')" by simp
    from Cons.IH [OF this] fr show ?thesis by auto
  next
    case False
    with Cons.prems s have "st' = st1" by simp
    with fr show ?thesis by auto
  qed
qed

lemma provision_success:
  assumes "provision e ap d idx st = (None, st')"
  shows "calls st' = calls st @ map (\<lambda>i. (yaml2obj_command ap i, d)) idx"
  using assms
proof (induction idx arbitrary: st)
  case Nil
  then show ?case by simp
next
  case (Cons i idx)
  obtain rc st1 where s: "sh e (yaml2obj_command ap i) d st = (rc, st1)"
    by (cases "sh e (yaml2obj_command ap i) d st")
  with Cons.prems have rc: "rc = 0" and p: "provision e ap d idx st1 = (None, st')"
    by (auto split: if_splits)
  from Cons.IH [OF p] sh_frame(5) [OF s]
  show ?case by auto
qed

lemma provision_files:
  assumes "shell_plain ap" and "provision e ap d idx st = (None, st')"
  shows "dom (files_of st' d) = dom (files_of st d) \<union> str_nat ` set idx"
  using assms(2)
proof (induction idx arbitrary: st)
  case Nil
  then show ?case by simp
next
  case (Cons i idx)
  obtain rc st1 where s: "sh e (yaml2obj_command ap i) d st = (rc, st1)"
    by (cases "sh e (yaml2obj_command ap i) d st")
  with Cons.prems have rc: "rc = 0" and p: "provision e ap d idx st1 = (None, st')"
    by (auto split: if_splits)
  from Cons.IH [OF p] sh_yaml2obj_files [OF assms(1) s]
  show ?case by auto
qed

text \<open>
  When the loop ends with an exception, the call that exited with a nonzero status is
  the last call made: the loop over the indices before it ended normally, and the final
  state is the state in which that call returned.
\<close>

lemma provision_failure:
  assumes "provision e ap d idx st = (Some x, st')"
  shows "\<exists>k rc stk. k < length idx \<and> rc \<noteq> 0 \<and> x = CalledProcessError rc \<and>
    provision e ap d (take k idx) st = (None, stk) \<and>
    sh e (yaml2obj_command ap (idx ! k)) d stk = (rc, st') \<and>
    calls st' = calls st @ map (\<lambda>i. (yaml2obj_command ap i, d)) (take (Suc k) idx)"
  using assms
proof (induction idx arbitrary: st)
  case Nil
  then show ?case by simp
next
  case (Cons i idx)
  obtain rc st1 where s: "sh e (yaml2obj_command ap i) d st = (rc, st1)"
    by (cases "sh e (yaml2obj_command ap i) d st")
  show ?case
  proof (cases "rc = 0")
    case True
    with Cons.prems s have "provision e ap d idx st1 = (Some x, st')" by simp
    from Cons.IH [OF this] obtain k rc' stk where
      k: "k < length idx" "rc' \<noteq> 0" "x = CalledProcessError rc'"
        "provision e ap d (take k idx) st1 = (None, stk)"
        "sh e (yaml2obj_command ap (idx ! k)) d stk = (rc', st')"
        "calls st' = calls st1 @ map (\<lambda>i. (yaml2obj_command ap i, d)) (take (Suc k) idx)"
      by blast
    with sh_frame(5) [OF s] s True have
      "Suc k < length (i # idx) \<and> rc' \<noteq> 0 \<and> x = CalledProcessError rc' \<and>
       provision e ap d (take (Suc k) (i # idx)) st = (None, stk) \<and>
       sh e (yaml2obj_command ap ((i # idx) ! Suc k)) d stk = (rc', st') \<and>
       calls st' = calls st @ map (\<lambda>i. (yaml2obj_command ap i, d)) (take (Suc (Suc k)) (i # idx))"
      by simp
    then show ?thesis by blast
  next
    case False
    with Cons.prems s have "x = CalledProcessError rc" "st' = st1" by simp_all
    with False sh_frame(5) [OF s] s have
      "0 < length (i # idx) \<and> rc \<noteq> 0 \<and> x = CalledProcessError rc \<and>
       provision e ap d (take 0 (i # idx)) st = (None, st) \<and>
       sh e (yaml2obj_command ap ((i # idx) ! 0)) d st = (rc, st') \<and>
       calls st' = calls st @ map (\<lambda>i. (yaml2obj_command ap i, d)) (take (Suc 0) (i # idx))"
      by simp
    then show ?thesis by blast
  qed
qed

section \<open>TestFile, step by step\<close>

declare upt_Suc [simp del]

lemma TestFile_unreadable:
  "(\<forall>contents. node_at e (abspath e f) \<noteq> Some (File contents)) \<Longrightarrow>
     TestFile e f st = (Inl OSError, st)"
  by (auto simp: TestFile_def split: option.splits fsnode.splits)

lemma TestFile_unfold:
  "node_at e (abspath e f) = Some (File contents) \<Longrightarrow>
   TestFile e f st =
     (case provisioned e f contents st of
        (Some x, st2) \<Rightarrow> (Inl x, st2)
      | (None, st2) \<Rightarrow>
          (case parse_test contents of
             Inl x \<Rightarrow> (Inl x, st2)
           | Inr (template, expected_output) \<Rightarrow>
               (case run_and_verify e (bloaty_invocation (getcwd e) template)
                       (tmpdir_of e st) expected_output st2 of
                  (failure, st3) \<Rightarrow>
                    (Inr failure, record_result f (tmpdir_of e st) failure st3))))"
  unfolding TestFile_def provisioned_def mkdtemp_def tmpdir_of_def Let_def print_line_def
  by (simp del: upt_Suc split: prod.splits option.splits sum.splits)

lemma mkdtemp_state:
  "snd (mkdtemp e ''/tmp/bloaty-'' (print_line f st)) =
     st\<lparr>tmpdirs := (tmpdirs st)(tmpdir_of e st \<mapsto> Map.empty),
        mkdtemp_calls := Suc (mkdtemp_calls st), printed := printed st @ [f]\<rparr>"
  by (simp add: mkdtemp_def print_line_def tmpdir_of_def Let_def)

lemma provisioned_frame:
  assumes "provisioned e f contents st = (x, st2)"
  shows "successes st2 = successes st" "failures st2 = failures st"
    "printed st2 = printed st @ [f]" "mkdtemp_calls st2 = Suc (mkdtemp_calls st)"
    "tmpdir_of e st \<in> dom (tmpdirs st2)"
    "d' \<noteq> tmpdir_of e st \<Longrightarrow> tmpdirs st2 d' = tmpdirs st d'"
  using provision_frame [OF assms [unfolded provisioned_def]]
  by (simp_all add: mkdtemp_state)

lemma provisioned_success:
  assumes "provisioned e f contents st = (None, st2)"
  shows "calls st2 = calls st @
           map (\<lambda>i. (yaml2obj_command (abspath e f) i, tmpdir_of e st)) [1..<Suc (file_count contents)]"
  using provision_success [OF assms [unfolded provisioned_def]]
  by (simp add: mkdtemp_state del: upt_Suc)

lemma provisioned_files:
  assumes "shell_plain (abspath e f)" and "provisioned e f contents st = (None, st2)"
  shows "dom (files_of st2 (tmpdir_of e st)) = str_nat ` {1..file_count contents}"
  using provision_files [OF assms(1) assms(2) [unfolded provisioned_def]]
  by (simp add: mkdtemp_state files_of_def atLeastLessThanSuc_atLeastAtMost del: upt_Suc)

lemma provisioned_failure:
  assumes "provisioned e f contents st = (Some x, st2)"
  shows "\<exists>k rc stk. 1 \<le> k \<and> k \<le> file_count contents \<and> rc \<noteq> 0 \<and>
    x = CalledProcessError rc \<and>
    provision e (abspath e f) (tmpdir_of e st) [1..<k]
      (snd (mkdtemp e ''/tmp/bloaty-'' (print_line f st))) = (None, stk) \<and>
    sh e (yaml2obj_command (abspath e f) k) (tmpdir_of e st) stk = (rc, st2) \<and>
    calls st2 = calls st @ map (\<lambda>i. (yaml2obj_command (abspath e f) i, tmpdir_of e st)) [1..<Suc k]"
proof -
  let ?st1 = "snd (mkdtemp e ''/tmp/bloaty-'' (print_line f st))"
  let ?idx = "[1..<Suc (file_count contents)]"
  from provision_failure [OF assms [unfolded provisioned_def]] obtain k rc stk where
    k: "k < length ?idx" "rc \<noteq> 0" "x = CalledProcessError rc"
    and p: "provision e (abspath e f) (tmpdir_of e st) (take k ?idx) ?st1 = (None, stk)"
    and s: "sh e (yaml2obj_command (abspath e f) (?idx ! k)) (tmpdir_of e st) stk = (rc, st2)"
    and c: "calls st2 = calls ?st1 @
      map (\<lambda>i. (yaml2obj_command (abspath e f) i, tmpdir_of e st)) (take (Suc k) ?idx)"
    by blast
  from k(1) have kn: "k < file_count contents" by simp
  then have t1: "take k ?idx = [1..<Suc k]" and t2: "take (Suc k) ?idx = [1..<Suc (Suc k)]"
    and n: "?idx ! k = Suc k"
    by (simp_all add: take_upt del: upt_Suc)
  have c0: "calls ?st1 = calls st" by (simp add: mkdtemp_state)
  from kn k(2,3) p s c have "1 \<le> Suc k \<and> Suc k \<le> file_count contents \<and> rc \<noteq> 0 \<and>
    x = CalledProcessError rc \<and>
    provision e (abspath e f) (tmpdir_of e st) [1..<Suc k] ?st1 = (None, stk) \<and>
    sh e (yaml2obj_command (abspath e f) (Suc k)) (tmpdir_of e st) stk = (rc, st2) \<and>
    calls st2 = calls st @
      map (\<lambda>i. (yaml2obj_command (abspath e f) i, tmpdir_of e st)) [1..<Suc (Suc k)]"
    unfolding t1 t2 n c0 by simp
  then show ?thesis by blast
qed

lemma verify_result:
  assumes "verify e d ex st = (failure, st')"
  shows "failure \<in> {None, Some ''FAILED''}"
    "successes st' = successes st" "failures st' = failures st" "printed st' = printed st"
    "mkdtemp_calls st' = mkdtemp_calls st"
    "calls st' = calls st @ [(''diff -u expected actual'', d)]"
    "tmpdirs st' = (tmpdirs st)(d \<mapsto> (files_of st d)(''expected'' \<mapsto> ex))"
  using assms by (auto simp: verify_def sh_diff write_file_def split: if_splits)

lemma run_and_verify_crashed:
  assumes "fst (sh e cmd d st) \<noteq> 0"
  shows "run_and_verify e cmd d ex st = (Some ''CRASHED'', snd (sh e cmd d st))"
  using assms by (cases "sh e cmd d st") (simp add: run_and_verify_def)

lemma run_and_verify_ok:
  assumes "fst (sh e cmd d st) = 0"
  shows "run_and_verify e cmd d ex st = verify e d ex (snd (sh e cmd d st))"
  using assms by (cases "sh e cmd d st") (simp add: run_and_verify_def)

lemma run_and_verify_frame:
  assumes "run_and_verify e cmd d ex st = (failure, st')"
  shows "failure \<in> {None, Some ''CRASHED'', Some ''FAILED''} \<and>
      successes st' = successes st \<and> failures st' = failures st \<and> printed st' = printed st \<and>
      mkdtemp_calls st' = mkdtemp_calls st \<and>
      (d \<in> dom (tmpdirs st) \<longrightarrow> d \<in> dom (tmpdirs st')) \<and>
      (\<forall>d'. d' \<noteq> d \<longrightarrow> tmpdirs st' d' = tmpdirs st d')"
proof -
  obtain rc st1 where s: "sh e cmd d st = (rc, st1)" by (cases "sh e cmd d st")
  note fr = sh_frame [OF s]
  show ?thesis
  proof (cases "rc = 0")
    case True
    with assms s have v: "verify e d ex st1 = (failure, st')"
      by (simp add: run_and_verify_def)
    from verify_result [OF v] fr show ?thesis by auto
  next
    case False
    with assms s have "failure = Some ''CRASHED''" "st' = st1"
      by (simp_all add: run_and_verify_def)
    with fr show ?thesis by auto
  qed
qed

lemma record_result_pass:
  "record_result f d None st = st\<lparr>successes := Suc (successes st), tmpdirs := (tmpdirs st)(d := None)\<rparr>"
  by (simp add: record_result_def truthy_def)

lemma record_result_failure:
  "tag \<noteq> [] \<Longrightarrow> record_result f d (Some tag) st =
     st\<lparr>printed := printed st @ [tag @ '': '' @ f, tag @ '': output in '' @ d],
        failures := failures st @ [(f, d)]\<rparr>"
  by (simp add: record_result_def truthy_def print_line_def Let_def)

text \<open>The three ways in which a case whose file can be read ends.\<close>

lemma TestFile_result:
  assumes "node_at e (abspath e f) = Some (File contents)"
    and "TestFile e f st = (r, st')"
  shows "(r = Inr None \<and> tmpdir_of e st \<notin> dom (tmpdirs st') \<and>
            failures st' = failures st \<and> successes st' = Suc (successes st))
       \<or> ((r = Inr (Some ''CRASHED'') \<or> r = Inr (Some ''FAILED'')) \<and>
            tmpdir_of e st \<in> dom (tmpdirs st') \<and>
            failures st' = failures st @ [(f, tmpdir_of e st)] \<and> successes st' = successes st)
       \<or> ((\<exists>rc. r = Inl (CalledProcessError rc)) \<or> r = Inl IndexError) \<and>
            tmpdir_of e st \<in> dom (tmpdirs st') \<and>
            failures st' = failures st \<and> successes st' = successes st"
proof -
  obtain x st2 where p: "provisioned e f contents st = (x, st2)"
    by (cases "provisioned e f contents st")
  note pf = provisioned_frame [OF p]
  show ?thesis
  proof (cases x)
    case (Some ex)
    with p assms have r: "r = Inl ex" "st' = st2"
      by (simp_all add: TestFile_unfold)
    from provisioned_failure [OF p [unfolded Some]] obtain rc where "ex = CalledProcessError rc"
      by blast
    with r pf show ?thesis by simp
  next
    case None
    show ?thesis
    proof (cases "parse_test contents")
      case (Inl ex)
      with None p assms have r: "r = Inl ex" "st' = st2"
        by (simp_all add: TestFile_unfold)
      from Inl have "ex = IndexError"
        by (auto simp: parse_test_def skip_to_command_none split: sum.splits)
      with r pf show ?thesis by simp
    next
      case (Inr tx)
      obtain t ex where tx: "tx = (t, ex)" by (cases tx)
      obtain failure st3 where
        rv: "run_and_verify e (bloaty_invocation (getcwd e) t) (tmpdir_of e st) ex st2 = (failure, st3)"
        by (cases "run_and_verify e (bloaty_invocation (getcwd e) t) (tmpdir_of e st) ex st2")
      note rf = run_and_verify_frame [OF rv]
      from None p assms Inr tx rv have r: "r = Inr failure"
        "st' = record_result f (tmpdir_of e st) failure st3"
        by (simp_all add: TestFile_unfold)
      from rf consider "failure = None" | "failure = Some ''CRASHED''" | "failure = Some ''FAILED''"
        by auto
      then show ?thesis
      proof cases
        case 1
        with r rf pf show ?thesis by (simp add: record_result_pass)
      next
        case 2
        with r rf pf show ?thesis by (simp add: record_result_failure)
      next
        case 3
        with r rf pf show ?thesis by (simp add: record_result_failure)
      qed
    qed
  qed
qed

section \<open>The lifecycle of the working directory and the failure list\<close>

lemma TestFile_failures:
  assumes "TestFile e f st = (r, st')"
  shows "failures st' = failures st @
    (if outcome_of r = Crashed \<or> outcome_of r = Mismatch then [(f, tmpdir_of e st)] else [])"
proof (cases "\<exists>contents. node_at e (abspath e f) = Some (File contents)")
  case True
  then obtain contents where c: "node_at e (abspath e f) = Some (File contents)" by blast
  from TestFile_result [OF c assms] show ?thesis
    by (auto simp: outcome_of_def truthy_def)
next
  case False
  then have "TestFile e f st = (Inl OSError, st)"
    by (intro TestFile_unreadable) simp
  with assms show ?thesis by (auto simp: outcome_of_def)
qed

lemma run_files_failures:
  "run_files e fs st = (x, st') \<Longrightarrow>
   failures st' = failures st @
     map (\<lambda>(f, d, oc). (f, d)) (filter (\<lambda>(f, d, oc). oc = Crashed \<or> oc = Mismatch) (case_log e fs st))"
proof (induction fs arbitrary: st)
  case Nil
  then show ?case by simp
next
  case (Cons f fs)
  obtain r st1 where t: "TestFile e f st = (r, st1)" by (cases "TestFile e f st")
  note ff = TestFile_failures [OF t]
  show ?case
  proof (cases r)
    case (Inl ex)
    with Cons.prems t have "st' = st1" by simp
    with ff Inl t show ?thesis by (simp add: outcome_of_def split: exn.splits)
  next
    case (Inr failure)
    with Cons.prems t have "run_files e fs st1 = (x, st')" by simp
    from Cons.IH [OF this] ff Inr t show ?thesis by simp
  qed
qed

text \<open>
  C1. For a test case whose file is read, the working directory is gone when the case
  ends if and only if the outcome is Pass; after ProvisioningError, Crashed or Mismatch it
  still exists; a Crashed or Mismatch case appends the pair of the file name and the
  directory to the failure list, and a run over several files leaves in that list the
  pairs of its Crashed and Mismatch cases in the order in which they were processed.
\<close>

theorem C1_workdir_lifecycle:
  assumes "node_at e (abspath e f) = Some (File contents)"
    and "TestFile e f st = (r, st')"
    and "run_files e fs st0 = (x, st1)"
  shows "(tmpdir_of e st \<notin> dom (tmpdirs st') \<longleftrightarrow> outcome_of r = Pass)
       \<and> (outcome_of r \<in> {ProvisioningError, Crashed, Mismatch} \<longrightarrow>
            tmpdir_of e st \<in> dom (tmpdirs st'))
       \<and> (outcome_of r \<in> {Crashed, Mismatch} \<longrightarrow>
            failures st' = failures st @ [(f, tmpdir_of e st)])
       \<and> failures st1 = failures st0 @
            map (\<lambda>(f, d, oc). (f, d))
              (filter (\<lambda>(f, d, oc). oc = Crashed \<or> oc = Mismatch) (case_log e fs st0))"
proof -
  from TestFile_result [OF assms(1,2)]
  have "(tmpdir_of e st \<notin> dom (tmpdirs st') \<longleftrightarrow> outcome_of r = Pass)
       \<and> (outcome_of r \<in> {ProvisioningError, Crashed, Mismatch} \<longrightarrow>
            tmpdir_of e st \<in> dom (tmpdirs st'))
       \<and> (outcome_of r \<in> {Crashed, Mismatch} \<longrightarrow>
            failures st' = failures st @ [(f, tmpdir_of e st)])"
    by (auto simp: outcome_of_def truthy_def)
  with run_files_failures [OF assms(3)] show ?thesis by simp
qed

text \<open>A crashing case in the concrete environment, and a run of a mismatching and a crashing case.\<close>

theorem C1_workdir_lifecycle_witness:
  "node_at demo_env (abspath demo_env ''t/crash.test'') = Some (File (''$ crash'' @ [LF] @ ''boom'' @ [LF]))
   \<and> outcome_of (fst (TestFile demo_env ''t/crash.test'' (initial_state Map.empty))) = Crashed
   \<and> tmpdir_of demo_env (initial_state Map.empty) = ''/tmp/bloaty-0''
   \<and> ''/tmp/bloaty-0'' \<in> dom (tmpdirs (snd (TestFile demo_env ''t/crash.test'' (initial_state Map.empty))))
   \<and> failures (snd (TestFile demo_env ''t/crash.test'' (initial_state Map.empty))) = [(''t/crash.test'', ''/tmp/bloaty-0'')]
   \<and> failures (snd (run_files demo_env [''t/diff.test'', ''t/crash.test''] (initial_state Map.empty)))
       = [(''t/diff.test'', ''/tmp/bloaty-0''), (''t/crash.test'', ''/tmp/bloaty-1'')]"
proof -
  have h1: "node_at demo_env (abspath demo_env ''t/crash.test'') = Some (File (''$ crash'' @ [LF] @ ''boom'' @ [LF]))"
    by code_simp
  have h2: "TestFile demo_env ''t/crash.test'' (initial_state Map.empty) =
      (fst (TestFile demo_env ''t/crash.test'' (initial_state Map.empty)),
       snd (TestFile demo_env ''t/crash.test'' (initial_state Map.empty)))"
    by simp
  have h3: "run_files demo_env [''t/diff.test'', ''t/crash.test''] (initial_state Map.empty) =
      (fst (run_files demo_env [''t/diff.test'', ''t/crash.test''] (initial_state Map.empty)),
       snd (run_files demo_env [''t/diff.test'', ''t/crash.test''] (initial_state Map.empty)))"
    by simp
  have o: "outcome_of (fst (TestFile demo_env ''t/crash.test'' (initial_state Map.empty))) = Crashed"
    by code_simp
  have d: "tmpdir_of demo_env (initial_state Map.empty) = ''/tmp/bloaty-0''"
    by code_simp
  have f0: "failures (initial_state Map.empty) = []"
    by (simp add: initial_state_def)
  have l: "map (\<lambda>(f, d, oc). (f, d))
              (filter (\<lambda>(f, d, oc). oc = Crashed \<or> oc = Mismatch)
                (case_log demo_env [''t/diff.test'', ''t/crash.test''] (initial_state Map.empty)))
      = [(''t/diff.test'', ''/tmp/bloaty-0''), (''t/crash.test'', ''/tmp/bloaty-1'')]"
    by code_simp
  show ?thesis
    using C1_workdir_lifecycle [OF h1 h2 h3] h1 o d f0 l by simp
qed

section \<open>The invocation and the verifier\<close>

lemma sut_run_eq:
  assumes "provisioned e f contents st = (None, st2)"
    and "parse_test contents = Inr (t, ex)"
  shows "sut_run e f contents st = sh e (bloaty_invocation (getcwd e) t) (tmpdir_of e st) st2"
  using assms by (simp add: sut_run_def)

lemma TestFile_run:
  assumes "node_at e (abspath e f) = Some (File contents)"
    and "provisioned e f contents st = (None, st2)"
    and "parse_test contents = Inr (t, ex)"
  shows "TestFile e f st =
     (Inr (fst (run_and_verify e (bloaty_invocation (getcwd e) t) (tmpdir_of e st) ex st2)),
      record_result f (tmpdir_of e st)
        (fst (run_and_verify e (bloaty_invocation (getcwd e) t) (tmpdir_of e st) ex st2))
        (snd (run_and_verify e (bloaty_invocation (getcwd e) t) (tmpdir_of e st) ex st2)))"
  using assms by (simp add: TestFile_unfold split: prod.splits)

lemma expected_not_fixture: "''expected'' \<notin> str_nat ` A"
proof
  assume "''expected'' \<in> str_nat ` A"
  then obtain n where "str_nat n = ''expected''" by auto
  with str_nat_digits [of n] show False by simp
qed

lemma files_after_invocation:
  assumes "simple_command (path_join cwd t)"
    and "sh e (bloaty_invocation cwd t) d st = (rc, st')"
  shows "dom (files_of st' d) = insert ''actual'' (dom (files_of st d))"
  using assms(2) by (auto simp: sh_invocation [OF assms(1)] Let_def files_of_def)

text \<open>
  C5. When the fixtures have been made and the command line has been found, a nonzero
  exit status of the invocation gives the outcome Crashed, whatever the program wrote:
  the invocation is the last child process of the case, no \<open>diff\<close> is run, and the
  harness writes no file, so that the directories are as the invocation left them; when
  the command lines of the case are simple, so that the shell itself makes no other file
  than the fixtures and \<open>actual\<close>, there is no file \<open>expected\<close>. With exit status zero
  the file \<open>expected\<close> is written and \<open>diff\<close> is run, and the outcome is Pass or
  Mismatch.
\<close>

theorem C5_crashed_skips_verifier:
  assumes "node_at e (abspath e f) = Some (File contents)"
    and "provisioned e f contents st = (None, st2)"
    and "parse_test contents = Inr (t, ex)"
    and "TestFile e f st = (r, st')"
  shows "(fst (sut_run e f contents st) \<noteq> 0 \<longrightarrow>
            r = Inr (Some ''CRASHED'') \<and> outcome_of r = Crashed \<and>
            calls st' = calls st2 @ [(bloaty_invocation (getcwd e) t, tmpdir_of e st)] \<and>
            tmpdirs st' = tmpdirs (snd (sut_run e f contents st)) \<and>
            (shell_plain (abspath e f) \<and> simple_command (path_join (getcwd e) t) \<longrightarrow>
               ''expected'' \<notin> dom (files_of st' (tmpdir_of e st))))
       \<and> (fst (sut_run e f contents st) = 0 \<longrightarrow>
            (outcome_of r = Pass \<or> outcome_of r = Mismatch) \<and>
            calls st' = calls st2 @ [(bloaty_invocation (getcwd e) t, tmpdir_of e st),
                                     (''diff -u expected actual'', tmpdir_of e st)] \<and>
            (outcome_of r = Mismatch \<longrightarrow> files_of st' (tmpdir_of e st) ''expected'' = Some ex))"
proof -
  let ?cmd = "bloaty_invocation (getcwd e) t" and ?d = "tmpdir_of e st"
  obtain rc st3 where s: "sh e ?cmd ?d st2 = (rc, st3)" by (cases "sh e ?cmd ?d st2")
  have sr: "sut_run e f contents st = (rc, st3)"
    using s by (simp add: sut_run_eq [OF assms(2,3)])
  then have run: "fst (sut_run e f contents st) = rc" by simp
  note tf = TestFile_run [OF assms(1,2,3)]
  show ?thesis
  proof (cases "rc = 0")
    case False
    then have rv: "run_and_verify e ?cmd ?d ex st2 = (Some ''CRASHED'', st3)"
      using s run_and_verify_crashed [of e ?cmd ?d st2 ex] by simp
    with tf assms(4) have r: "r = Inr (Some ''CRASHED'')"
      and st': "st' = record_result f ?d (Some ''CRASHED'') st3"
      by simp_all
    from st' have c: "calls st' = calls st3" and t: "tmpdirs st' = tmpdirs st3"
      by (simp_all add: record_result_failure)
    from t have fo: "files_of st' ?d = files_of st3 ?d"
      by (simp add: files_of_def)
    have "shell_plain (abspath e f) \<and> simple_command (path_join (getcwd e) t) \<longrightarrow>
        ''expected'' \<notin> dom (files_of st' ?d)"
    proof
      assume pl: "shell_plain (abspath e f) \<and> simple_command (path_join (getcwd e) t)"
      then have sc: "simple_command (path_join (getcwd e) t)" and pa: "shell_plain (abspath e f)"
        by simp_all
      from fo files_after_invocation [OF sc s] provisioned_files [OF pa assms(2)]
      show "''expected'' \<notin> dom (files_of st' ?d)"
        using expected_not_fixture [of "{1..file_count contents}"] by simp
    qed
    with r c t sh_frame(5) [OF s] False sr show ?thesis
      by (simp add: outcome_of_def truthy_def)
  next
    case True
    then have rv: "run_and_verify e ?cmd ?d ex st2 = verify e ?d ex st3"
      using s run_and_verify_ok [of e ?cmd ?d st2 ex] by simp
    obtain failure st4 where v: "verify e ?d ex st3 = (failure, st4)"
      by (cases "verify e ?d ex st3")
    note vr = verify_result [OF v]
    from tf assms(4) rv v have r: "r = Inr failure"
      and st': "st' = record_result f ?d failure st4"
      by simp_all
    from vr(1) consider "failure = None" | "failure = Some ''FAILED''" by auto
    then show ?thesis
    proof cases
      case 1
      with r st' vr sh_frame(5) [OF s] True run show ?thesis
        by (simp add: outcome_of_def truthy_def record_result_pass)
    next
      case 2
      with r st' vr sh_frame(5) [OF s] True run show ?thesis
        by (simp add: outcome_of_def truthy_def record_result_failure files_of_def)
    qed
  qed
qed

text \<open>The program \<open>crash\<close> prints exactly the expected output \<open>boom\<close> and exits with status 1: the case is Crashed all the same.\<close>

theorem C5_crashed_skips_verifier_witness:
  "parse_test (''$ crash'' @ [LF] @ ''boom'' @ [LF]) = Inr (''crash'', ''boom'' @ [LF])
   \<and> sut_run demo_env ''t/crash.test'' (''$ crash'' @ [LF] @ ''boom'' @ [LF]) (initial_state Map.empty)
       = sh demo_env ''/w/crash > actual'' ''/tmp/bloaty-0''
           (snd (provisioned demo_env ''t/crash.test'' (''$ crash'' @ [LF] @ ''boom'' @ [LF]) (initial_state Map.empty)))
   \<and> demo_program ''/w/crash'' ''/tmp/bloaty-0'' [''actual'' \<mapsto> []] = (1, ''boom'' @ [LF])
   \<and> fst (TestFile demo_env ''t/crash.test'' (initial_state Map.empty)) = Inr (Some ''CRASHED'')
   \<and> calls (snd (TestFile demo_env ''t/crash.test'' (initial_state Map.empty))) = [(''/w/crash > actual'', ''/tmp/bloaty-0'')]
   \<and> ''expected'' \<notin> dom (files_of (snd (TestFile demo_env ''t/crash.test'' (initial_state Map.empty))) ''/tmp/bloaty-0'')"
proof -
  let ?c = "''$ crash'' @ [LF] @ ''boom'' @ [LF]"
  let ?st = "initial_state Map.empty"
  have h1: "node_at demo_env (abspath demo_env ''t/crash.test'') = Some (File ?c)"
    by code_simp
  have h2: "provisioned demo_env ''t/crash.test'' ?c ?st =
      (None, snd (provisioned demo_env ''t/crash.test'' ?c ?st))"
    by (rule prod_eqI) (code_simp, simp)
  have h3: "parse_test ?c = Inr (''crash'', ''boom'' @ [LF])"
    by code_simp
  have h4: "TestFile demo_env ''t/crash.test'' ?st =
      (fst (TestFile demo_env ''t/crash.test'' ?st), snd (TestFile demo_env ''t/crash.test'' ?st))"
    by simp
  have rc: "fst (sut_run demo_env ''t/crash.test'' ?c ?st) \<noteq> 0"
    by code_simp
  have d: "tmpdir_of demo_env ?st = ''/tmp/bloaty-0''"
    by code_simp
  have i: "bloaty_invocation (getcwd demo_env) ''crash'' = ''/w/crash > actual''"
    by code_simp
  have c0: "calls (snd (provisioned demo_env ''t/crash.test'' ?c ?st)) = []"
    by code_simp
  have p: "demo_program ''/w/crash'' ''/tmp/bloaty-0'' [''actual'' \<mapsto> []] = (1, ''boom'' @ [LF])"
    by (simp add: demo_program_def)
  have pl: "shell_plain (abspath demo_env ''t/crash.test'') \<and>
      simple_command (path_join (getcwd demo_env) ''crash'')"
    by code_simp
  show ?thesis
    using C5_crashed_skips_verifier [OF h1 h2 h3 h4] rc d i c0 p h3 pl sut_run_eq [OF h2 h3]
    by simp
qed

section \<open>Counting the document separators\<close>

lemma lines_nl_nonempty: "lines_nl s \<noteq> []"
  by (induction s) (auto split: list.splits)

lemma hd_lines_nl: "hd (lines_nl s) = takeWhile (\<lambda>c. c \<noteq> LF) s"
  using lines_nl_nonempty by (induction s) (auto split: list.splits)

lemma prefix_takeWhile:
  "\<forall>c \<in> set p. Q c \<Longrightarrow> prefix p (takeWhile Q s) \<longleftrightarrow> prefix p s"
proof (induction p arbitrary: s)
  case Nil
  then show ?case by simp
next
  case (Cons a p)
  then show ?case by (cases s) auto
qed

lemma prefix_first_line: "LF \<notin> set p \<Longrightarrow> prefix p (hd (lines_nl s)) \<longleftrightarrow> prefix p s"
  using prefix_takeWhile [of p "\<lambda>c. c \<noteq> LF" s] by (auto simp: hd_lines_nl)

lemma lines_nl_Cons:
  "c \<noteq> LF \<Longrightarrow> lines_nl (c # cs) = (c # hd (lines_nl cs)) # tl (lines_nl cs)"
  using lines_nl_nonempty [of cs] by (cases "lines_nl cs") simp_all

lemma separator_prefix_Cons:
  "c \<noteq> LF \<Longrightarrow> prefix ''---'' (c # hd (lines_nl cs)) \<longleftrightarrow> prefix ''---'' (c # cs)"
  using prefix_first_line [of "''--''" cs] by auto

lemma count_separators_lines:
  "count_separators bol s =
     length (filter (prefix ''---'') (if bol then lines_nl s else tl (lines_nl s)))"
proof (induction bol s rule: count_separators.induct)
  case (1 bol)
  then show ?case by simp
next
  case (2 bol c cs)
  show ?case
  proof (cases "bol \<and> prefix ''---'' (c # cs)")
    case True
    then obtain rest where cs: "c = CHR ''-''" "cs = ''--'' @ rest"
      by (auto simp: prefix_def)
    from "2.IH"(1) [OF True] cs
    have ih: "count_separators False rest = length (filter (prefix ''---'') (tl (lines_nl rest)))"
      by simp
    have "lines_nl (c # cs) = (''---'' @ hd (lines_nl rest)) # tl (lines_nl rest)"
      using cs lines_nl_nonempty [of rest] by (cases "lines_nl rest") simp_all
    with True cs ih show ?thesis by simp
  next
    case False
    note ih = "2.IH"(2) [OF False]
    show ?thesis
    proof (cases "c = LF")
      case True
      with False ih show ?thesis by auto
    next
      case nl: False
      from False have "bol \<Longrightarrow> \<not> prefix ''---'' (c # hd (lines_nl cs))"
        using separator_prefix_Cons [OF nl, of cs] by blast
      note np = this
      have eq: "lines_nl (c # cs) = (c # hd (lines_nl cs)) # tl (lines_nl cs)"
        by (rule lines_nl_Cons [OF nl])
      have "(c = LF) = False" using nl by simp
      then have cnt: "count_separators bol (c # cs) = count_separators False cs"
        by (simp only: count_separators.simps if_not_P [OF False])
      from ih nl have ih': "count_separators False cs =
          length (filter (prefix ''---'') (tl (lines_nl cs)))"
        by simp
      show ?thesis
        unfolding cnt eq ih' using np by (cases bol) simp_all
    qed
  qed
qed

lemma file_count_lines: "file_count contents = separator_lines contents"
  by (simp add: file_count_def separator_lines_def count_separators_lines)

lemma digit_char_nonzero: "0 < d \<Longrightarrow> d < 10 \<Longrightarrow> digit_char d \<noteq> CHR ''0''"
proof
  assume d: "0 < d" "d < 10" and "digit_char d = CHR ''0''"
  then have "digit_char d = digit_char 0" by (simp add: digit_char_def)
  from digit_char_inj [OF d(2) _ this] d(1) show False by simp
qed

lemma str_nat_unpadded: "0 < n \<Longrightarrow> hd (str_nat n) \<noteq> CHR ''0''"
proof (induction n rule: str_nat.induct)
  case (1 n)
  show ?case
  proof (cases "n < 10")
    case True
    with "1.prems" show ?thesis
      by (simp add: str_nat_length_small digit_char_nonzero)
  next
    case False
    then have "0 < n div 10" by simp
    from "1.IH" [OF False this] False show ?thesis
      by (simp add: str_nat_large str_nat_nonempty)
  qed
qed

text \<open>
  C3, as the code has it. The fixture count is the number of lines that begin with the
  document separator \<open>---\<close> (a line such as \<open>--- !ELF\<close> counts), where lines are
  the pieces between newline characters. When no compiler invocation fails, the compiler
  is invoked for the indices 1 to N in this order, by command lines that redirect its
  output to the decimal numerals of 1 to N without leading zeros; and when the path of
  the test file, which is spliced into these command lines unquoted, holds no character
  that is special to the shell, the working directory, empty when made, then holds
  exactly N files, named by these numerals.
\<close>

theorem C3_fixture_count:
  assumes "provisioned e f contents st = (None, st2)"
  shows "file_count contents = separator_lines contents
       \<and> calls st2 = calls st @
           map (\<lambda>i. (yaml2obj_command (abspath e f) i, tmpdir_of e st))
             [1..<Suc (file_count contents)]
       \<and> (shell_plain (abspath e f) \<longrightarrow>
            dom (files_of st2 (tmpdir_of e st)) = str_nat ` {1..file_count contents} \<and>
            card (dom (files_of st2 (tmpdir_of e st))) = file_count contents)
       \<and> (\<forall>i \<in> {1..file_count contents}. hd (str_nat i) \<noteq> CHR ''0'')"
  using provisioned_success [OF assms] provisioned_files [OF _ assms]
    file_count_lines [of contents]
    card_str_nat_image [of "file_count contents"] str_nat_unpadded
  by simp

text \<open>The file \<open>t/pass.test\<close> has one document, which begins with \<open>--- !ELF\<close>.\<close>

theorem C3_fixture_count_witness:
  "fst (provisioned demo_env ''t/bad.test''
          (''---'' @ [LF] @ ''---'' @ [LF] @ ''$ bloaty 1 2'' @ [LF] @ ''ok'' @ [LF])
          (initial_state Map.empty)) \<noteq> None
   \<and> provisioned demo_env ''t/pass.test''
        (''--- !ELF'' @ [LF] @ ''$ bloaty 1'' @ [LF] @ ''ok'' @ [LF]) (initial_state Map.empty)
      = (None, snd (provisioned demo_env ''t/pass.test''
        (''--- !ELF'' @ [LF] @ ''$ bloaty 1'' @ [LF] @ ''ok'' @ [LF]) (initial_state Map.empty)))
   \<and> separator_lines (''--- !ELF'' @ [LF] @ ''$ bloaty 1'' @ [LF] @ ''ok'' @ [LF]) = 1
   \<and> calls (snd (provisioned demo_env ''t/pass.test''
        (''--- !ELF'' @ [LF] @ ''$ bloaty 1'' @ [LF] @ ''ok'' @ [LF]) (initial_state Map.empty)))
      = [(''yaml2obj /w/t/pass.test --docnum=1 > 1'', ''/tmp/bloaty-0'')]
   \<and> dom (files_of (snd (provisioned demo_env ''t/pass.test''
        (''--- !ELF'' @ [LF] @ ''$ bloaty 1'' @ [LF] @ ''ok'' @ [LF]) (initial_state Map.empty)))
        ''/tmp/bloaty-0'') = {''1''}"
proof -
  let ?c = "''--- !ELF'' @ [LF] @ ''$ bloaty 1'' @ [LF] @ ''ok'' @ [LF]"
  let ?st = "initial_state Map.empty"
  have h: "provisioned demo_env ''t/pass.test'' ?c ?st =
      (None, snd (provisioned demo_env ''t/pass.test'' ?c ?st))"
    by (rule prod_eqI) (code_simp, simp)
  have b: "fst (provisioned demo_env ''t/bad.test''
          (''---'' @ [LF] @ ''---'' @ [LF] @ ''$ bloaty 1 2'' @ [LF] @ ''ok'' @ [LF]) ?st) \<noteq> None"
    by code_simp
  have n: "file_count ?c = 1" by code_simp
  have d: "tmpdir_of demo_env ?st = ''/tmp/bloaty-0''" by code_simp
  have y: "yaml2obj_command (abspath demo_env ''t/pass.test'') 1 = ''yaml2obj /w/t/pass.test --docnum=1 > 1''"
    by code_simp
  have s: "str_nat 1 = ''1''" by code_simp
  have c0: "calls ?st = []" by (simp add: initial_state_def)
  have u: "[1..<Suc 1] = [1::nat]" by (simp add: upt_rec)
  have pl: "shell_plain (abspath demo_env ''t/pass.test'')" by code_simp
  show ?thesis
    using C3_fixture_count [OF h] h b n d y s c0 u pl by simp
qed

text \<open>With the lines that are exactly \<open>---\<close> counted instead, the same file would have no fixture: it has one.\<close>

theorem C3_exact_match_counterexample:
  "file_count (''--- !ELF'' @ [LF] @ ''$ bloaty 1'' @ [LF] @ ''ok'' @ [LF]) = 1
   \<and> exact_separator_lines (''--- !ELF'' @ [LF] @ ''$ bloaty 1'' @ [LF] @ ''ok'' @ [LF]) = 0"
  by code_simp

section \<open>The suite\<close>

lemma run_files_append:
  "run_files e (fs1 @ fs2) st =
     (case run_files e fs1 st of
        (Some x, st') \<Rightarrow> (Some x, st')
      | (None, st') \<Rightarrow> run_files e fs2 st')"
  by (induction fs1 arbitrary: st) (auto split: prod.splits sum.splits option.splits)

lemma TestArg_run_files:
  "TestArg e arg st = run_files e (if isdir e arg then sort (glob_tests e arg) else [arg]) st"
  by (auto simp: TestArg_def split: prod.splits sum.splits)

lemma run_args_discovered: "run_args e args st = run_files e (discovered e args) st"
proof (induction args arbitrary: st)
  case Nil
  then show ?case by (simp add: discovered_def)
next
  case (Cons arg args)
  have d: "discovered e (arg # args) =
      (if isdir e arg then sort (glob_tests e arg) else [arg]) @ discovered e args"
    by (simp add: discovered_def)
  show ?case
    unfolding d run_files_append
    by (simp add: TestArg_run_files Cons.IH split: prod.splits option.splits)
qed

lemma discovered_empty_args: "discovered e [] = []"
  by (simp add: discovered_def)

text \<open>
  An exception in one case ends the whole run: the final state is the state in which
  the exception was raised, and the exit status is 1.
\<close>

lemma run_files_abort:
  assumes "run_files e fs1 st0 = (None, st)"
    and "TestFile e f st = (Inl x, st')"
  shows "run_files e (fs1 @ f # fs2) st0 = (Some x, st')"
  using assms by (simp add: run_files_append)

lemma tester_abort:
  assumes "discovered e (drop 1 argv) = fs1 @ f # fs2"
    and "run_files e fs1 (initial_state tmp) = (None, st)"
    and "TestFile e f st = (Inl x, st')"
  shows "tester e argv tmp = (1, st')"
proof -
  from assms(1) have "drop 1 argv \<noteq> []"
    using discovered_empty_args [of e] by auto
  moreover have "run_args e (drop 1 argv) (initial_state tmp) = (Some x, st')"
    using run_files_abort [OF assms(2,3)] assms(1) by (simp add: run_args_discovered)
  ultimately show ?thesis
    by (simp add: tester_def)
qed

lemma case_log_append_ok:
  "run_files e fs1 st0 = (None, st) \<Longrightarrow>
   case_log e (fs1 @ fs2) st0 = case_log e fs1 st0 @ case_log e fs2 st"
  by (induction fs1 arbitrary: st0) (auto split: prod.splits sum.splits)

section \<open>Exceptions: a failing fixture compiler and a missing command line\<close>

lemma exact_le_separator_lines: "exact_separator_lines c \<le> separator_lines c"
proof -
  have "filter (\<lambda>l. l = ''---'') (lines_nl c) =
      filter (\<lambda>l. l = ''---'') (filter (prefix ''---'') (lines_nl c))"
    by (auto intro: filter_cong)
  then show ?thesis
    unfolding exact_separator_lines_def separator_lines_def
    using length_filter_le [of "\<lambda>l. l = ''---''" "filter (prefix ''---'') (lines_nl c)"]
    by simp
qed

lemma parse_test_error:
  "parse_test c = Inl x \<longleftrightarrow> x = IndexError \<and> (\<forall>l \<in> set (splitlines c). \<not> prefix ''$'' l)"
  using skip_to_command_none [of "splitlines c" x]
  by (auto simp: parse_test_def split: sum.splits)


lemma TestFile_format_error:
  assumes "node_at e (abspath e f) = Some (File contents)"
    and "provisioned e f contents st = (None, st2)"
    and "\<forall>l \<in> set (splitlines contents). \<not> prefix ''$'' l"
  shows "TestFile e f st = (Inl IndexError, st2)"
proof -
  from assms(3) have "parse_test contents = Inl IndexError"
    by (simp add: parse_test_error)
  with assms(1,2) show ?thesis by (simp add: TestFile_unfold)
qed




text \<open>
  C9. Parsing raises \<open>IndexError\<close> exactly when no line starts with \<open>$\<close>, as for the
  empty file. In a case whose fixtures have been made this exception leaves \<open>TestFile\<close>;
  nothing catches it, so the harness ends there with exit status 1, in the state in which
  the exception was raised: the last line printed is the progress line of the case and no
  summary is printed.
\<close>

theorem C9_format_error_fatal:
  assumes "\<forall>l \<in> set (splitlines contents). \<not> prefix ''$'' l"
    and "node_at e (abspath e f) = Some (File contents)"
    and "provisioned e f contents st = (None, st2)"
    and "discovered e (drop 1 argv) = fs1 @ f # fs2"
    and "run_files e fs1 (initial_state tmp) = (None, st)"
  shows "parse_test contents = Inl IndexError
       \<and> (parse_test c = Inl IndexError \<longleftrightarrow> (\<forall>l \<in> set (splitlines c). \<not> prefix ''$'' l))
       \<and> parse_test [] = Inl IndexError
       \<and> TestFile e f st = (Inl IndexError, st2)
       \<and> outcome_of (fst (TestFile e f st)) = FormatError
       \<and> tester e argv tmp = (1, st2)
       \<and> printed st2 = printed st @ [f]
       \<and> failures st2 = failures st \<and> successes st2 = successes st"
proof -
  note t = TestFile_format_error [OF assms(2,3,1)]
  have "parse_test [] = Inl IndexError"
    by (simp add: parse_test_def splitlines_def)
  with t tester_abort [OF assms(4,5) t] provisioned_frame [OF assms(3)] assms(1)
  show ?thesis
    by (simp add: parse_test_error outcome_of_def)
qed

text \<open>The file \<open>t/nocmd.test\<close> has no line that starts with \<open>$\<close>.\<close>

theorem C9_format_error_fatal_witness:
  "splitlines (''--- !ELF'' @ [LF] @ ''Sections:'' @ [LF]) = [''--- !ELF'', ''Sections:'']
   \<and> TestFile demo_env ''t/nocmd.test'' (initial_state Map.empty)
       = (Inl IndexError,
          snd (provisioned demo_env ''t/nocmd.test'' (''--- !ELF'' @ [LF] @ ''Sections:'' @ [LF])
                 (initial_state Map.empty)))
   \<and> fst (tester demo_env [''tester.py'', ''t/nocmd.test'', ''t/pass.test''] Map.empty) = 1
   \<and> printed (snd (tester demo_env [''tester.py'', ''t/nocmd.test'', ''t/pass.test''] Map.empty))
       = [''t/nocmd.test'']"
proof -
  let ?c = "''--- !ELF'' @ [LF] @ ''Sections:'' @ [LF]"
  let ?st = "initial_state Map.empty"
  have h0: "splitlines ?c = [''--- !ELF'', ''Sections:'']"
    by code_simp
  have h1: "\<forall>l \<in> set (splitlines ?c). \<not> prefix ''$'' l"
    unfolding h0 by simp
  have h2: "node_at demo_env (abspath demo_env ''t/nocmd.test'') = Some (File ?c)"
    by code_simp
  have h3: "provisioned demo_env ''t/nocmd.test'' ?c ?st =
      (None, snd (provisioned demo_env ''t/nocmd.test'' ?c ?st))"
    by (rule prod_eqI) (code_simp, simp)
  have h4: "discovered demo_env (drop 1 [''tester.py'', ''t/nocmd.test'', ''t/pass.test'']) =
      [] @ ''t/nocmd.test'' # [''t/pass.test'']"
    by code_simp
  have h5: "run_files demo_env [] ?st = (None, ?st)"
    by simp
  have i: "printed ?st = []"
    by (simp add: initial_state_def)
  show ?thesis
    using C9_format_error_fatal [OF h1 h2 h3 h4 h5] h0 i by simp
qed

text \<open>
  C10. The working directory is made and the fixtures are compiled before the command
  line is looked for. For a file with N lines that begin with the document separator
  (the lines that are exactly the separator are among them) and without a line that
  starts with \<open>$\<close>, in a case that comes to look for the command line (no compiler
  invocation has raised), the compiler has been invoked for all N documents in order;
  then \<open>IndexError\<close> ends the harness with exit status 1, and in its final state the
  working directory exists, while the case is neither in the failure list nor counted as
  a success. When the path of the test file holds no character that is special to the
  shell, that directory holds the N fixtures.
\<close>

theorem C10_no_cleanup_on_format_error:
  assumes "\<forall>l \<in> set (splitlines contents). \<not> prefix ''$'' l"
    and "node_at e (abspath e f) = Some (File contents)"
    and "provisioned e f contents st = (None, st2)"
    and "discovered e (drop 1 argv) = fs1 @ f # fs2"
    and "run_files e fs1 (initial_state tmp) = (None, st)"
  shows "TestFile e f st = (Inl IndexError, st2)
       \<and> file_count contents = separator_lines contents
       \<and> exact_separator_lines contents \<le> file_count contents
       \<and> calls st2 = calls st @
           map (\<lambda>i. (yaml2obj_command (abspath e f) i, tmpdir_of e st))
             [1..<Suc (file_count contents)]
       \<and> tester e argv tmp = (1, st2)
       \<and> tmpdir_of e st \<in> dom (tmpdirs st2)
       \<and> failures st2 = failures st \<and> successes st2 = successes st
       \<and> (shell_plain (abspath e f) \<longrightarrow>
            dom (files_of st2 (tmpdir_of e st)) = str_nat ` {1..file_count contents} \<and>
            (1 \<le> file_count contents \<longrightarrow> files_of st2 (tmpdir_of e st) \<noteq> Map.empty))"
proof -
  note t = TestFile_format_error [OF assms(2,3,1)]
  note ps = provisioned_success [OF assms(3)]
  have "shell_plain (abspath e f) \<longrightarrow>
            dom (files_of st2 (tmpdir_of e st)) = str_nat ` {1..file_count contents} \<and>
            (1 \<le> file_count contents \<longrightarrow> files_of st2 (tmpdir_of e st) \<noteq> Map.empty)"
  proof
    assume pl: "shell_plain (abspath e f)"
    note pf = provisioned_files [OF pl assms(3)]
    have "1 \<le> file_count contents \<longrightarrow> files_of st2 (tmpdir_of e st) \<noteq> Map.empty"
    proof
      assume "1 \<le> file_count contents"
      then have "str_nat 1 \<in> str_nat ` {1..file_count contents}" by simp
      with pf have "str_nat 1 \<in> dom (files_of st2 (tmpdir_of e st))" by simp
      then show "files_of st2 (tmpdir_of e st) \<noteq> Map.empty" by auto
    qed
    with pf show "dom (files_of st2 (tmpdir_of e st)) = str_nat ` {1..file_count contents} \<and>
            (1 \<le> file_count contents \<longrightarrow> files_of st2 (tmpdir_of e st) \<noteq> Map.empty)"
      by simp
  qed
  with t ps tester_abort [OF assms(4,5) t] provisioned_frame [OF assms(3)]
    file_count_lines [of contents] exact_le_separator_lines [of contents]
  show ?thesis by simp
qed

text \<open>The same file: its fixture is compiled and stays in the directory that is left behind.\<close>

theorem C10_no_cleanup_on_format_error_witness:
  "splitlines (''--- !ELF'' @ [LF] @ ''Sections:'' @ [LF]) = [''--- !ELF'', ''Sections:'']
   \<and> file_count (''--- !ELF'' @ [LF] @ ''Sections:'' @ [LF]) = 1
   \<and> tester demo_env [''tester.py'', ''t/nocmd.test'', ''t/pass.test''] Map.empty
       = (1, snd (provisioned demo_env ''t/nocmd.test'' (''--- !ELF'' @ [LF] @ ''Sections:'' @ [LF])
                 (initial_state Map.empty)))
   \<and> calls (snd (tester demo_env [''tester.py'', ''t/nocmd.test'', ''t/pass.test''] Map.empty))
       = [(''yaml2obj /w/t/nocmd.test --docnum=1 > 1'', ''/tmp/bloaty-0'')]
   \<and> ''/tmp/bloaty-0'' \<in> dom (tmpdirs (snd (tester demo_env [''tester.py'', ''t/nocmd.test'', ''t/pass.test''] Map.empty)))
   \<and> dom (files_of (snd (tester demo_env [''tester.py'', ''t/nocmd.test'', ''t/pass.test''] Map.empty))
        ''/tmp/bloaty-0'') = {''1''}
   \<and> failures (snd (tester demo_env [''tester.py'', ''t/nocmd.test'', ''t/pass.test''] Map.empty)) = []"
proof -
  let ?c = "''--- !ELF'' @ [LF] @ ''Sections:'' @ [LF]"
  let ?st = "initial_state Map.empty"
  have h0: "splitlines ?c = [''--- !ELF'', ''Sections:'']"
    by code_simp
  have h1: "\<forall>l \<in> set (splitlines ?c). \<not> prefix ''$'' l"
    unfolding h0 by simp
  have h2: "node_at demo_env (abspath demo_env ''t/nocmd.test'') = Some (File ?c)"
    by code_simp
  have h3: "provisioned demo_env ''t/nocmd.test'' ?c ?st =
      (None, snd (provisioned demo_env ''t/nocmd.test'' ?c ?st))"
    by (rule prod_eqI) (code_simp, simp)
  have h4: "discovered demo_env (drop 1 [''tester.py'', ''t/nocmd.test'', ''t/pass.test'']) =
      [] @ ''t/nocmd.test'' # [''t/pass.test'']"
    by code_simp
  have h5: "run_files demo_env [] ?st = (None, ?st)"
    by simp
  have n: "file_count ?c = 1" by code_simp
  have d: "tmpdir_of demo_env ?st = ''/tmp/bloaty-0''" by code_simp
  have y: "yaml2obj_command (abspath demo_env ''t/nocmd.test'') 1 = ''yaml2obj /w/t/nocmd.test --docnum=1 > 1''"
    by code_simp
  have i: "calls ?st = [] \<and> failures ?st = []"
    by (simp add: initial_state_def)
  have u: "[1..<Suc 1] = [1::nat]" by (simp add: upt_rec)
  have s: "str_nat 1 = ''1''" by code_simp
  have pl: "shell_plain (abspath demo_env ''t/nocmd.test'')" by code_simp
  show ?thesis
    using C10_no_cleanup_on_format_error [OF h1 h2 h3 h4 h5] h0 n d y i u s pl by simp
qed

section \<open>The invocation template and the command line\<close>




lemma takeWhile_append_all:
  "\<forall>c \<in> set a. P c \<Longrightarrow> takeWhile P (a @ b) = a @ takeWhile P b"
  by (induction a) simp_all








section \<open>The exit status\<close>






section \<open>Discovery\<close>

lemma os_path_split_tail:
  assumes "h = [] \<or> last h = CHR ''/''" and "CHR ''/'' \<notin> set t"
  shows "os_path_split (h @ t) =
     (if h \<noteq> [] \<and> h \<noteq> replicate (length h) (CHR ''/'') then rstrip_sep h else h, t)"
proof -
  have "takeWhile (\<lambda>c. c \<noteq> CHR ''/'') (rev h) = []"
    using assms(1) by (cases h rule: rev_cases) auto
  moreover have "\<forall>c \<in> set (rev t). c \<noteq> CHR ''/''"
    using assms(2) by auto
  ultimately have "takeWhile (\<lambda>c. c \<noteq> CHR ''/'') (rev (h @ t)) = rev t"
    by (simp add: takeWhile_append_all)
  then show ?thesis
    by (simp add: os_path_split_def Let_def)
qed

lemma rstrip_sep_snoc: "c \<noteq> CHR ''/'' \<Longrightarrow> rstrip_sep (s @ [c]) = s @ [c]"
  by (simp add: rstrip_sep_def)

lemma rstrip_sep_slash: "rstrip_sep (s @ ''/'') = rstrip_sep s"
  by (simp add: rstrip_sep_def)

lemma rstrip_sep_unchanged: "s = [] \<or> last s \<noteq> CHR ''/'' \<Longrightarrow> rstrip_sep s = s"
  by (cases s rule: rev_cases) (auto simp: rstrip_sep_def)

lemma set_rstrip_sep: "set (rstrip_sep s) \<subseteq> set s"
  using set_dropWhileD [of _ "\<lambda>c. c = CHR ''/''" "rev s"]
  by (auto simp: rstrip_sep_def)

lemma replicate_snoc_slash:
  "s @ ''/'' = replicate (Suc (length s)) (CHR ''/'') \<longleftrightarrow> s = replicate (length s) (CHR ''/'')"
proof -
  have "replicate (Suc (length s)) (CHR ''/'') = replicate (length s) (CHR ''/'') @ ''/''"
    by (simp add: replicate_append_same)
  then show ?thesis by simp
qed

lemma suffix_slash_last: "suffix ''/'' s \<longleftrightarrow> s \<noteq> [] \<and> last s = CHR ''/''"
  by (cases s rule: rev_cases) (auto simp: suffix_def)

lemma glob_dirname_pattern:
  assumes "arg \<noteq> []"
  shows "glob_dirname (path_join arg ''**/*.test'') =
     (if arg = replicate (length arg) (CHR ''/'') then arg else rstrip_sep arg)"
proof -
  define A where "A = (if suffix ''/'' arg then arg else arg @ ''/'')"
  have A: "A \<noteq> []" "last A = CHR ''/''"
    using assms by (auto simp: A_def suffix_slash_last)
  have p: "path_join arg ''**/*.test'' = (A @ ''**/'') @ ''*.test''"
    using assms by (simp add: path_join_def A_def)
  have s1: "os_path_split ((A @ ''**/'') @ ''*.test'') = (rstrip_sep (A @ ''**/''), ''*.test'')"
  proof -
    have "CHR ''*'' \<in> set (A @ ''**/'')" by simp
    moreover have "CHR ''*'' \<notin> set (replicate (length (A @ ''**/'')) (CHR ''/''))" by simp
    ultimately have "A @ ''**/'' \<noteq> replicate (length (A @ ''**/'')) (CHR ''/'')"
      by metis
    then show ?thesis
      using os_path_split_tail [of "A @ ''**/''" "''*.test''"] by simp
  qed
  have r1: "rstrip_sep (A @ ''**/'') = A @ ''**''"
    using rstrip_sep_slash [of "A @ ''**''"] rstrip_sep_snoc [of "CHR ''*''" "A @ ''*''"]
    by simp
  have s2: "os_path_split (A @ ''**'') =
      (if A \<noteq> replicate (length A) (CHR ''/'') then rstrip_sep A else A, ''**'')"
    using os_path_split_tail [of A "''**''"] A by simp
  have d: "glob_dirname (path_join arg ''**/*.test'') =
      (if A \<noteq> replicate (length A) (CHR ''/'') then rstrip_sep A else A)"
    by (simp only: glob_dirname_def p s1 fst_conv r1 s2)
  show ?thesis
  proof (cases "suffix ''/'' arg")
    case True
    then have "A = arg" by (simp add: A_def)
    with d show ?thesis by auto
  next
    case False
    then have a: "A = arg @ ''/''" by (simp add: A_def)
    from False assms have l: "last arg \<noteq> CHR ''/''"
      by (simp add: suffix_slash_last)
    then have n: "arg \<noteq> replicate (length arg) (CHR ''/'')"
      using assms by (metis last_replicate length_0_conv)
    then have "A \<noteq> replicate (length A) (CHR ''/'')"
      using replicate_snoc_slash [of arg] by (simp add: a)
    moreover have "rstrip_sep A = rstrip_sep arg"
      by (simp add: a rstrip_sep_slash)
    ultimately show ?thesis using d n by simp
  qed
qed

lemma has_magic_rstrip: "\<not> has_magic arg \<Longrightarrow> \<not> has_magic (rstrip_sep arg)"
  using set_rstrip_sep [of arg] by (auto simp: has_magic_def list_ex_iff)

lemma path_join_empty_then:
  "\<not> prefix ''/'' c \<Longrightarrow> path_join (path_join a []) c = path_join a c"
  by (auto simp: path_join_def suffix_def)

lemma path_join_plain:
  "b \<noteq> [] \<Longrightarrow> \<not> suffix ''/'' b \<Longrightarrow> \<not> prefix ''/'' c \<Longrightarrow> path_join b c = b @ ''/'' @ c"
  by (simp add: path_join_def)

lemma prefix_slash_append: "b \<noteq> [] \<Longrightarrow> prefix ''/'' (b @ c) \<longleftrightarrow> prefix ''/'' b"
  by (cases b) auto

lemma suffix_slash_append: "c \<noteq> [] \<Longrightarrow> suffix ''/'' (b @ c) \<longleftrightarrow> suffix ''/'' c"
  by (cases c rule: rev_cases) (auto simp: suffix_slash_last)

lemma path_join_assoc:
  assumes "b \<noteq> []" "\<not> prefix ''/'' b" "\<not> suffix ''/'' b" "\<not> prefix ''/'' c"
  shows "path_join (path_join a b) c = path_join a (path_join b c)"
proof -
  have bc: "path_join b c = b @ ''/'' @ c"
    using assms by (simp add: path_join_plain)
  have nb: "\<not> prefix ''/'' (b @ ''/'' @ c)"
    using assms(1,2) by (simp add: prefix_slash_append)
  have e: "\<not> suffix ''/'' (a @ b)" "\<not> suffix ''/'' (a @ ''/'' @ b)" "a @ b \<noteq> []"
    using assms(1,3) suffix_slash_append [of b a] suffix_slash_append [of b "a @ ''/''"]
    by simp_all
  show ?thesis
    unfolding bc using assms(2,4) nb e
    by (auto simp: path_join_def)
qed

lemma name_not_absolute: "x \<noteq> [] \<Longrightarrow> CHR ''/'' \<notin> set x \<Longrightarrow> \<not> prefix ''/'' x \<and> \<not> suffix ''/'' x"
  by (auto simp: prefix_def suffix_def)

lemma wf_names_entry:
  "wf_names es \<Longrightarrow> (x, n) \<in> set es \<Longrightarrow> x \<noteq> [] \<and> CHR ''/'' \<notin> set x"
  by (induction es rule: wf_names.induct) auto

lemma glob1_test_names:
  assumes "wf_names es" and "n \<in> set (glob1_test es)"
  shows "\<not> prefix ''/'' n"
proof -
  from assms(2) obtain v where "(n, v) \<in> set es"
    by (auto simp: glob1_test_def)
  from wf_names_entry [OF assms(1) this] show ?thesis
    using name_not_absolute by blast
qed

lemma joined_relpath:
  assumes "x \<noteq> []" "CHR ''/'' \<notin> set x" "y \<noteq> []" "\<not> prefix ''/'' y" "\<not> suffix ''/'' y"
  shows "path_join x y \<noteq> [] \<and> \<not> prefix ''/'' (path_join x y) \<and> \<not> suffix ''/'' (path_join x y)"
proof -
  have "path_join x y = x @ ''/'' @ y"
    using assms name_not_absolute [of x] by (simp add: path_join_plain)
  moreover have "\<not> prefix ''/'' (x @ ''/'' @ y)"
    using assms(1,2) name_not_absolute [of x] by (simp add: prefix_slash_append)
  moreover have "\<not> suffix ''/'' (x @ ''/'' @ y)"
    using assms(3,5) suffix_slash_append [of y "x @ ''/''"] by simp
  ultimately show ?thesis using assms(1) by simp
qed

lemma rlistdir_wf:
  "wf_names es \<Longrightarrow> (y, s) \<in> set (rlistdir es) \<Longrightarrow>
     y \<noteq> [] \<and> \<not> prefix ''/'' y \<and> \<not> suffix ''/'' y \<and> wf_names s"
proof (induction es arbitrary: y s rule: rlistdir.induct)
  case 1
  then show ?case by simp
next
  case (2 x c es)
  then show ?case by simp
next
  case (3 x sub es)
  from "3.prems"(1) have wf: "x \<noteq> []" "CHR ''/'' \<notin> set x" "wf_names sub" "wf_names es"
    by simp_all
  from "3.prems"(2) consider
      (here) "\<not> ishidden x" "y = x" "s = sub"
    | (below) y' where "\<not> ishidden x" "(y', s) \<in> set (rlistdir sub)" "y = path_join x y'"
    | (rest) "(y, s) \<in> set (rlistdir es)"
    by (auto split: if_splits)
  then show ?case
  proof cases
    case here
    with wf name_not_absolute [of x] show ?thesis by simp
  next
    case below
    from "3.IH"(1) [OF below(1) wf(3) below(2)]
    have "y' \<noteq> []" "\<not> prefix ''/'' y'" "\<not> suffix ''/'' y'" "wf_names s"
      by simp_all
    with joined_relpath [OF wf(1,2), of y'] below(3) show ?thesis by simp
  next
    case rest
    from "3.IH"(2) [OF wf(4) rest] show ?thesis .
  qed
qed

lemma concat_rejoin:
  assumes "\<forall>(y, s) \<in> set L. y \<noteq> [] \<and> \<not> prefix ''/'' y \<and> \<not> suffix ''/'' y \<and> wf_names s"
  shows "concat (map (\<lambda>(y, s). map (path_join (path_join a y)) (glob1_test s)) L) =
    map (path_join a) (concat (map (\<lambda>(y, s). map (path_join y) (glob1_test s)) L))"
  using assms
proof (induction L)
  case Nil
  then show ?case by simp
next
  case (Cons p L)
  obtain y s where p: "p = (y, s)" by (cases p)
  from Cons.prems p have g: "y \<noteq> []" "\<not> prefix ''/'' y" "\<not> suffix ''/'' y" "wf_names s"
    by simp_all
  have "map (path_join (path_join a y)) (glob1_test s) =
      map (path_join a) (map (path_join y) (glob1_test s))"
    using glob1_test_names [OF g(4)] path_join_assoc [OF g(1,2,3), of _ a]
    by simp
  with Cons p show ?case by simp
qed

lemma concat_map_relabel:
  "concat (map (\<lambda>(d, s). map (path_join d) (glob1_test s)) (map (\<lambda>(y, s). (path_join a y, s)) L)) =
   concat (map (\<lambda>(y, s). map (path_join (path_join a y)) (glob1_test s)) L)"
  by (induction L) auto

lemma rlistdir_all_wf:
  "wf_names es \<Longrightarrow>
   \<forall>(y, s) \<in> set (rlistdir es). y \<noteq> [] \<and> \<not> prefix ''/'' y \<and> \<not> suffix ''/'' y \<and> wf_names s"
  using rlistdir_wf by blast

lemma glob1_test_Cons:
  "glob1_test ((x, n) # es) =
     (if \<not> ishidden x \<and> suffix ''.test'' x then [x] else []) @ glob1_test es"
  by (simp add: glob1_test_def fnmatch_test_def)

text \<open>
  What \<open>glob\<close> lists below a directory, relative to it, is a rearrangement of the
  entries that it can reach.
\<close>

lemma glob_relative_mset:
  "wf_names es \<Longrightarrow>
   mset (glob1_test es @
         concat (map (\<lambda>(y, s). map (path_join y) (glob1_test s)) (rlistdir es)))
     = mset (visible_tests es)"
proof (induction es rule: rlistdir.induct)
  case 1
  then show ?case by (simp add: glob1_test_def)
next
  case (2 x c es)
  then show ?case by (simp add: glob1_test_Cons)
next
  case (3 x sub es)
  from "3.prems" have wf: "x \<noteq> []" "CHR ''/'' \<notin> set x" "wf_names sub" "wf_names es"
    by simp_all
  note ih2 = "3.IH"(2) [OF wf(4)]
  show ?case
  proof (cases "ishidden x")
    case True
    with ih2 show ?thesis by (simp add: glob1_test_Cons)
  next
    case False
    note ih1 = "3.IH"(1) [OF False wf(3)]
    have r: "concat (map (\<lambda>(y, s). map (path_join y) (glob1_test s))
                 (map (\<lambda>(y, s). (path_join x y, s)) (rlistdir sub)))
        = map (path_join x) (concat (map (\<lambda>(y, s). map (path_join y) (glob1_test s)) (rlistdir sub)))"
      unfolding concat_map_relabel
      by (rule concat_rejoin [OF rlistdir_all_wf [OF wf(3)]])
    have "mset (map (path_join x) (glob1_test sub) @
                map (path_join x) (concat (map (\<lambda>(y, s). map (path_join y) (glob1_test s)) (rlistdir sub))))
        = mset (map (path_join x) (visible_tests sub))"
      using arg_cong [OF ih1, of "image_mset (path_join x)"] by simp
    then have m1: "image_mset (path_join x) (mset (glob1_test sub)) +
          image_mset (path_join x)
            (mset (concat (map (\<lambda>(y, s). map (path_join y) (glob1_test s)) (rlistdir sub))))
        = image_mset (path_join x) (mset (visible_tests sub))"
      by simp
    from ih2 have m2: "mset (glob1_test es) +
          mset (concat (map (\<lambda>(y, s). map (path_join y) (glob1_test s)) (rlistdir es)))
        = mset (visible_tests es)"
      by simp
    have L: "glob1_test ((x, Dir sub) # es) @
          concat (map (\<lambda>(y, s). map (path_join y) (glob1_test s)) (rlistdir ((x, Dir sub) # es)))
        = ((if suffix ''.test'' x then [x] else []) @ glob1_test es) @
          (map (path_join x) (glob1_test sub) @
           map (path_join x) (concat (map (\<lambda>(y, s). map (path_join y) (glob1_test s)) (rlistdir sub)))) @
          concat (map (\<lambda>(y, s). map (path_join y) (glob1_test s)) (rlistdir es))"
      using False by (simp add: glob1_test_Cons r del: map_map)
    have R: "visible_tests ((x, Dir sub) # es) =
        ((if suffix ''.test'' x then [x] else []) @ map (path_join x) (visible_tests sub)) @
        visible_tests es"
      using False by simp
    show ?thesis
      unfolding L R
      by (simp add: m1 [symmetric] m2 [symmetric] ac_simps)
  qed
qed

lemma glob_tests_listing:
  assumes "glob_dirname (path_join arg ''**/*.test'') = dirname"
    and "dirname \<noteq> []" and "\<not> has_magic dirname"
    and "node_at e dirname = Some (Dir es)" and "wf_names es"
  shows "glob_tests e arg =
     map (path_join dirname)
       (glob1_test es @ concat (map (\<lambda>(y, s). map (path_join y) (glob1_test s)) (rlistdir es)))"
proof -
  have a: "map (path_join (path_join dirname [])) (glob1_test es) =
      map (path_join dirname) (glob1_test es)"
    using glob1_test_names [OF assms(5)] by (simp add: path_join_empty_then)
  have b: "concat (map (\<lambda>(d, s). map (path_join d) (glob1_test s))
                 (map (\<lambda>(y, s). (path_join dirname y, s)) (rlistdir es)))
      = map (path_join dirname)
          (concat (map (\<lambda>(y, s). map (path_join y) (glob1_test s)) (rlistdir es)))"
    unfolding concat_map_relabel
    by (rule concat_rejoin [OF rlistdir_all_wf [OF assms(5)]])
  have "glob_tests e arg =
      concat (map (\<lambda>(d, s). map (path_join d) (glob1_test s))
                ((path_join dirname [], es) #
                 map (\<lambda>(y, s). (path_join dirname y, s)) (rlistdir es)))"
    using assms(1,2,3,4) by (simp add: glob_tests_def Let_def del: map_map)
  also have "\<dots> = map (path_join (path_join dirname [])) (glob1_test es) @
      concat (map (\<lambda>(d, s). map (path_join d) (glob1_test s))
                (map (\<lambda>(y, s). (path_join dirname y, s)) (rlistdir es)))"
    by (simp del: map_map)
  finally show ?thesis
    by (simp only: a b map_append)
qed

lemma glob_tests_sorted:
  assumes "glob_dirname (path_join arg ''**/*.test'') = dirname"
    and "dirname \<noteq> []" and "\<not> has_magic dirname"
    and "node_at e dirname = Some (Dir es)" and "wf_names es"
  shows "sort (glob_tests e arg) = sort (map (path_join dirname) (visible_tests es))"
proof -
  have "mset (glob_tests e arg) = mset (map (path_join dirname) (visible_tests es))"
    unfolding glob_tests_listing [OF assms]
    using arg_cong [OF glob_relative_mset [OF assms(5)], of "image_mset (path_join dirname)"]
    by simp
  then show ?thesis
    by (intro properties_for_sort) simp_all
qed

lemma rstrip_sep_empty: "rstrip_sep s = [] \<longleftrightarrow> s = replicate (length s) (CHR ''/'')"
proof -
  have "rstrip_sep s = [] \<longleftrightarrow> (\<forall>c \<in> set s. c = CHR ''/'')"
    by (simp add: rstrip_sep_def dropWhile_eq_Nil_conv)
  also have "\<dots> \<longleftrightarrow> s = replicate (length s) (CHR ''/'')"
    by (metis in_set_replicate replicate_length_same)
  finally show ?thesis .
qed

lemma discovered_single:
  "discovered e [arg] = (if isdir e arg then sort (glob_tests e arg) else [arg])"
  by (simp add: discovered_def)

text \<open>
  C8, as the code has it. For a directory argument that is not empty and holds none of
  the characters \<open>*?[\<close>, let \<open>dirname\<close> be the argument without its trailing slashes
  (the argument itself when it consists of slashes). The test cases run for it are, in
  sorted path order, the paths below \<open>dirname\<close> of the entries, files or directories,
  whose name ends in \<open>.test\<close> and does not begin with a dot and which are reached
  through directories whose names do not begin with a dot. An argument that is not a
  directory is run as it is.
\<close>

theorem C8_discovery:
  assumes "isdir e arg" and "arg \<noteq> []" and "\<not> has_magic arg"
    and "dirname = (if arg = replicate (length arg) (CHR ''/'') then arg else rstrip_sep arg)"
    and "node_at e dirname = Some (Dir es)" and "wf_names es"
  shows "discovered e [arg] = sort (map (path_join dirname) (visible_tests es))
       \<and> sorted (discovered e [arg])
       \<and> set (discovered e [arg]) = path_join dirname ` set (visible_tests es)
       \<and> TestArg e arg st = run_files e (discovered e [arg]) st
       \<and> (\<not> isdir e other \<longrightarrow>
            discovered e [other] = [other] \<and> TestArg e other st = run_files e [other] st)"
proof -
  have d: "glob_dirname (path_join arg ''**/*.test'') = dirname"
    using glob_dirname_pattern [OF assms(2)] assms(4) by simp
  have ne: "dirname \<noteq> []"
    using assms(2,4) rstrip_sep_empty [of arg] by auto
  have nm: "\<not> has_magic dirname"
    using assms(3,4) has_magic_rstrip [of arg] by auto
  have s: "sort (glob_tests e arg) = sort (map (path_join dirname) (visible_tests es))"
    by (rule glob_tests_sorted [OF d ne nm assms(5,6)])
  have 1: "discovered e [arg] = sort (map (path_join dirname) (visible_tests es))"
    using assms(1) s by (simp add: discovered_single)
  then have 2: "sorted (discovered e [arg])"
    and 3: "set (discovered e [arg]) = path_join dirname ` set (visible_tests es)"
    by simp_all
  have 4: "TestArg e arg st = run_files e (discovered e [arg]) st"
    by (simp add: TestArg_run_files discovered_single)
  have 5: "\<not> isdir e other \<longrightarrow>
            discovered e [other] = [other] \<and> TestArg e other st = run_files e [other] st"
    by (simp add: TestArg_run_files discovered_single)
  from 1 2 3 4 5 show ?thesis by blast
qed

text \<open>The directory \<open>t\<close>, and the file \<open>t/notes.txt\<close> given as an argument.\<close>

theorem C8_discovery_witness:
  "isdir demo_env ''t'' \<and> wf_names demo_files
   \<and> discovered demo_env [''t''] =
       [''t/bad.test'', ''t/badnocmd.test'', ''t/crash.test'', ''t/diff.test'', ''t/more.test'',
        ''t/nocmd.test'', ''t/pass.test'', ''t/sub/deep.test'']
   \<and> discovered demo_env [''t/notes.txt''] = [''t/notes.txt'']"
proof -
  have h1: "isdir demo_env ''t''" by code_simp
  have h2: "''t'' \<noteq> []" by simp
  have h3: "\<not> has_magic ''t''" by code_simp
  have h4: "''t'' = (if ''t'' = replicate (length ''t'') (CHR ''/'') then ''t'' else rstrip_sep ''t'')"
    by code_simp
  have h5: "node_at demo_env ''t'' = Some (Dir demo_files)" by code_simp
  have h6: "wf_names demo_files" by code_simp
  have f: "\<not> isdir demo_env ''t/notes.txt''" by code_simp
  have v: "sort (map (path_join ''t'') (visible_tests demo_files)) =
       [''t/bad.test'', ''t/badnocmd.test'', ''t/crash.test'', ''t/diff.test'', ''t/more.test'',
        ''t/nocmd.test'', ''t/pass.test'', ''t/sub/deep.test'']"
    by code_simp
  from C8_discovery [OF h1 h2 h3 h4 h5 h6, of _ "''t/notes.txt''"] f
  have "discovered demo_env [''t''] = sort (map (path_join ''t'') (visible_tests demo_files))"
    and "discovered demo_env [''t/notes.txt''] = [''t/notes.txt'']"
    by blast+
  with h1 h6 v show ?thesis by simp
qed

text \<open>The file \<open>t/.hid/h.test\<close> is below \<open>t\<close> and its name ends in \<open>.test\<close>, but it is not discovered; \<open>t/more.test\<close> is discovered and is a directory.\<close>

theorem C8_hidden_counterexample:
  "isdir demo_env ''t''
   \<and> ''.hid/h.test'' \<in> set (test_files_under demo_files)
   \<and> ''t/.hid/h.test'' \<notin> set (discovered demo_env [''t''])
   \<and> ''t/more.test'' \<in> set (discovered demo_env [''t''])
   \<and> node_at demo_env (abspath demo_env ''t/more.test'') = Some (Dir [])"
  by code_simp

end
